theory Spec2Isabelle
  imports Main
begin

section \<open>Strings\<close>

text \<open>
  A JavaScript string is a sequence of UTF-16 code units, and every string operation of
  the plugin (\<^verbatim>\<open>includes\<close>, \<^verbatim>\<open>split\<close>, the regular expressions, none of which
  carries the \<^verbatim>\<open>u\<close> flag) works on code units. A string is therefore a list of
  code-unit values; ASCII literals are written through \<open>js\<close>.
\<close>

type_synonym jsstring = "nat list"

definition js :: "string \<Rightarrow> jsstring" where
  "js s = map of_char s"

text \<open>The calendar emoji U+1F4C5 is the surrogate pair D83D DCC5.\<close>

definition calendarEmoji :: jsstring where
  "calendarEmoji = [55357, 56517]"

fun startsWith :: "jsstring \<Rightarrow> jsstring \<Rightarrow> bool" where
  "startsWith s [] = True"
| "startsWith [] (p # ps) = False"
| "startsWith (c # cs) (p # ps) = (c = p \<and> startsWith cs ps)"

text \<open>\<^verbatim>\<open>s.includes(p)\<close>: \<open>p\<close> occurs in \<open>s\<close> as a contiguous run of code units.\<close>

fun str_includes :: "jsstring \<Rightarrow> jsstring \<Rightarrow> bool" where
  "str_includes [] p = (p = [])"
| "str_includes (c # cs) p = (startsWith (c # cs) p \<or> str_includes cs p)"

text \<open>\<^verbatim>\<open>String(n)\<close> for a non-negative integer: its decimal digits.\<close>

fun digits :: "nat \<Rightarrow> jsstring" where
  "digits n = (if n < 10 then [48 + n] else digits (n div 10) @ [48 + n mod 10])"

declare digits.simps [simp del]

text \<open>\<^verbatim>\<open>Number(s)\<close> for a string of decimal digits.\<close>

definition undigits :: "jsstring \<Rightarrow> nat" where
  "undigits ds = foldl (\<lambda>a c. 10 * a + (c - 48)) 0 ds"

section \<open>Dates\<close>

text \<open>
  A \<^verbatim>\<open>Date\<close> object holds a time value, the milliseconds since the epoch in UTC, or NaN
  (an invalid date). Of the local time zone the engine knows the offset of local time from
  UTC, which the language standard calls LocalTZA: the offset in force at a UTC instant,
  and the offset by which a local time is read back (for a local time that the zone skips
  or repeats, the offset before the transition). The zone is a parameter of every
  operation that reads or writes local time.
\<close>

datatype jsdate = InvalidDate | DateAt int

record zone =
  offsetAtUTC :: "int \<Rightarrow> int"
  offsetAtLocal :: "int \<Rightarrow> int"

definition msPerDay :: int where
  "msPerDay = 86400000"

definition LocalTime :: "zone \<Rightarrow> int \<Rightarrow> int" where
  "LocalTime z t = t + offsetAtUTC z t"

definition UTC :: "zone \<Rightarrow> int \<Rightarrow> int" where
  "UTC z t = t - offsetAtLocal z t"

text \<open>A time value beyond 8.64e15 milliseconds from the epoch is NaN.\<close>

definition TimeClip :: "int \<Rightarrow> jsdate" where
  "TimeClip t = (if \<bar>t\<bar> \<le> 8640000000000000 then DateAt t else InvalidDate)"

definition Day :: "int \<Rightarrow> int" where
  "Day t = t div msPerDay"

definition TimeWithinDay :: "int \<Rightarrow> int" where
  "TimeWithinDay t = t mod msPerDay"

definition HourFromTime :: "int \<Rightarrow> int" where
  "HourFromTime t = (t div 3600000) mod 24"

definition MinFromTime :: "int \<Rightarrow> int" where
  "MinFromTime t = (t div 60000) mod 60"

definition SecFromTime :: "int \<Rightarrow> int" where
  "SecFromTime t = (t div 1000) mod 60"

definition msFromTime :: "int \<Rightarrow> int" where
  "msFromTime t = t mod 1000"

fun isNaN_getTime :: "jsdate \<Rightarrow> bool" where
  "isNaN_getTime InvalidDate = True"
| "isNaN_getTime (DateAt t) = False"

text \<open>
  \<^verbatim>\<open>d.setHours(0, 0, 0, 0)\<close>: the local day of the date at time 0, read back as a UTC
  instant and clipped; NaN stays NaN.
\<close>

fun setHours0 :: "zone \<Rightarrow> jsdate \<Rightarrow> jsdate" where
  "setHours0 z InvalidDate = InvalidDate"
| "setHours0 z (DateAt t) = TimeClip (UTC z (Day (LocalTime z t) * msPerDay))"

fun getHours :: "zone \<Rightarrow> jsdate \<Rightarrow> int option" where
  "getHours z InvalidDate = None"
| "getHours z (DateAt t) = Some (HourFromTime (LocalTime z t))"

fun getMinutes :: "zone \<Rightarrow> jsdate \<Rightarrow> int option" where
  "getMinutes z InvalidDate = None"
| "getMinutes z (DateAt t) = Some (MinFromTime (LocalTime z t))"

fun getSeconds :: "zone \<Rightarrow> jsdate \<Rightarrow> int option" where
  "getSeconds z InvalidDate = None"
| "getSeconds z (DateAt t) = Some (SecFromTime (LocalTime z t))"

fun getMilliseconds :: "zone \<Rightarrow> jsdate \<Rightarrow> int option" where
  "getMilliseconds z InvalidDate = None"
| "getMilliseconds z (DateAt t) = Some (msFromTime (LocalTime z t))"

text \<open>
  \<^verbatim>\<open>d.toDateString()\<close> prints the weekday, month, day and year of the local calendar
  day, and \<^verbatim>\<open>Invalid Date\<close> for NaN. The plugin only compares two such strings, so the
  string is represented by the local day number it names.
\<close>

fun toDateString :: "zone \<Rightarrow> jsdate \<Rightarrow> int option" where
  "toDateString z InvalidDate = None"
| "toDateString z (DateAt t) = Some (Day (LocalTime z t))"

text \<open>Relational comparison of two dates compares time values; any comparison with NaN is false.\<close>

fun date_ge :: "jsdate \<Rightarrow> jsdate \<Rightarrow> bool" where
  "date_ge (DateAt a) (DateAt b) = (a \<ge> b)"
| "date_ge _ _ = False"

fun time_lt :: "jsdate \<Rightarrow> jsdate \<Rightarrow> bool" where
  "time_lt (DateAt a) (DateAt b) = (a < b)"
| "time_lt _ _ = False"

fun time_eq :: "jsdate \<Rightarrow> jsdate \<Rightarrow> bool" where
  "time_eq (DateAt a) (DateAt b) = (a = b)"
| "time_eq _ _ = False"


section \<open>Tasks (types.ts)\<close>

record tfile =
  path :: jsstring
  basename :: jsstring

text \<open>
  \<^verbatim>\<open>interface Task { text; date: Date | null; file: TFile; line; isCompleted }\<close>.
  The fields \<^verbatim>\<open>text\<close>, \<^verbatim>\<open>date\<close>, \<^verbatim>\<open>file\<close> and \<^verbatim>\<open>line\<close> carry the prefix
  \<open>task_\<close>; \<open>None\<close> is \<^verbatim>\<open>null\<close>.
\<close>

record task =
  task_text :: jsstring
  task_date :: "jsdate option"
  task_file :: tfile
  task_line :: nat
  isCompleted :: bool

section \<open>Aggregation: the end of loadTasks (main.ts 619-632)\<close>

text \<open>The key of the deduplication map: \<^verbatim>\<open>`${task.file.path}:${task.line}`\<close>.\<close>

definition taskKey :: "task \<Rightarrow> jsstring" where
  "taskKey t = path (task_file t) @ js '':'' @ digits (task_line t)"

text \<open>
  A \<^verbatim>\<open>Map\<close> keeps its entries in insertion order, so it is an association list that
  \<^verbatim>\<open>set\<close> extends at the end; \<^verbatim>\<open>has\<close> looks the key up.
\<close>

definition map_has :: "(jsstring \<times> task) list \<Rightarrow> jsstring \<Rightarrow> bool" where
  "map_has m k = (k \<in> set (map fst m))"

fun dedup_loop :: "task list \<Rightarrow> (jsstring \<times> task) list \<Rightarrow> (jsstring \<times> task) list" where
  "dedup_loop [] m = m"
| "dedup_loop (t # ts) m =
     dedup_loop ts (if \<not> map_has m (taskKey t) then m @ [(taskKey t, t)] else m)"

definition hasCalendarEmoji :: "task \<Rightarrow> bool" where
  "hasCalendarEmoji t = str_includes (task_text t) calendarEmoji"

text \<open>
  \<open>loadTasks_finish raw\<close> is what \<^verbatim>\<open>loadTasks\<close> does to \<^verbatim>\<open>this.tasks\<close> once the
  discovery strategy has filled it with \<open>raw\<close>: the filter on the calendar emoji, then the
  deduplication through the map, then \<^verbatim>\<open>Array.from(taskMap.values())\<close>.
\<close>

definition loadTasks_finish :: "task list \<Rightarrow> task list" where
  "loadTasks_finish raw = map snd (dedup_loop (filter hasCalendarEmoji raw) [])"

text \<open>Two tasks name the same (file path, line) pair.\<close>

definition samePlace :: "task \<Rightarrow> task \<Rightarrow> bool" where
  "samePlace t u = (path (task_file u) = path (task_file t) \<and> task_line u = task_line t)"

section \<open>The civil calendar of Date\<close>

text \<open>
  The day arithmetic of the language standard: \<open>dayFromYear y\<close> is the day number of
  1 January of year \<open>y\<close> (day 0 is 1 January 1970), \<open>yearFromDay d\<close> the largest year
  that starts on or before day \<open>d\<close>, months are numbered from 0.
\<close>

definition dayFromYear :: "int \<Rightarrow> int" where
  "dayFromYear y = 365 * (y - 1970) + (y - 1969) div 4 - (y - 1901) div 100 + (y - 1601) div 400"

definition inLeapYear :: "int \<Rightarrow> bool" where
  "inLeapYear y = (y mod 4 = 0 \<and> (y mod 100 \<noteq> 0 \<or> y mod 400 = 0))"

definition yearFromDay :: "int \<Rightarrow> int" where
  "yearFromDay d =
     (let y = 1970 + (d * 400) div 146097
      in if dayFromYear (y + 1) \<le> d then y + 1 else if dayFromYear y \<le> d then y else y - 1)"

text \<open>The day within the year on which month \<open>m\<close> starts.\<close>

definition monthStart :: "bool \<Rightarrow> int \<Rightarrow> int" where
  "monthStart leap m =
     (let l = (if leap then 1 else 0)
      in if m = 0 then 0 else if m = 1 then 31 else if m = 2 then 59 + l
         else if m = 3 then 90 + l else if m = 4 then 120 + l else if m = 5 then 151 + l
         else if m = 6 then 181 + l else if m = 7 then 212 + l else if m = 8 then 243 + l
         else if m = 9 then 273 + l else if m = 10 then 304 + l else 334 + l)"

definition monthFromDay :: "int \<Rightarrow> int" where
  "monthFromDay d =
     (let y = yearFromDay d; w = d - dayFromYear y; leap = inLeapYear y
      in if w < monthStart leap 1 then 0 else if w < monthStart leap 2 then 1
         else if w < monthStart leap 3 then 2 else if w < monthStart leap 4 then 3
         else if w < monthStart leap 5 then 4 else if w < monthStart leap 6 then 5
         else if w < monthStart leap 7 then 6 else if w < monthStart leap 8 then 7
         else if w < monthStart leap 9 then 8 else if w < monthStart leap 10 then 9
         else if w < monthStart leap 11 then 10 else 11)"

definition YearFromTime :: "int \<Rightarrow> int" where
  "YearFromTime t = yearFromDay (Day t)"

definition MonthFromTime :: "int \<Rightarrow> int" where
  "MonthFromTime t = monthFromDay (Day t)"

definition DateFromTime :: "int \<Rightarrow> int" where
  "DateFromTime t =
     (let d = Day t; y = yearFromDay d
      in d - dayFromYear y - monthStart (inLeapYear y) (monthFromDay d) + 1)"

text \<open>0 is Sunday, 1 is Monday; day 0 was a Thursday.\<close>

definition WeekDay :: "int \<Rightarrow> int" where
  "WeekDay t = (Day t + 4) mod 7"

text \<open>The accessors of a valid date, on its time value: they read local time.\<close>

definition getFullYear :: "zone \<Rightarrow> int \<Rightarrow> int" where
  "getFullYear z t = YearFromTime (LocalTime z t)"

definition getMonth :: "zone \<Rightarrow> int \<Rightarrow> int" where
  "getMonth z t = MonthFromTime (LocalTime z t)"

definition getDate :: "zone \<Rightarrow> int \<Rightarrow> int" where
  "getDate z t = DateFromTime (LocalTime z t)"

definition getDay :: "zone \<Rightarrow> int \<Rightarrow> int" where
  "getDay z t = WeekDay (LocalTime z t)"

text \<open>
  A numeric accessor on a date that may be invalid gives NaN for it, here \<open>None\<close>; sums
  and differences with NaN are NaN.
\<close>

definition numberOf :: "(int \<Rightarrow> int) \<Rightarrow> jsdate \<Rightarrow> int option" where
  "numberOf f d = (case d of InvalidDate \<Rightarrow> None | DateAt t \<Rightarrow> Some (f t))"

definition num_minus :: "int option \<Rightarrow> int option \<Rightarrow> int option" where
  "num_minus a b = (case a of None \<Rightarrow> None | Some x \<Rightarrow> map_option (\<lambda>y. x - y) b)"

definition num_plus :: "int option \<Rightarrow> int option \<Rightarrow> int option" where
  "num_plus a b = (case a of None \<Rightarrow> None | Some x \<Rightarrow> map_option (\<lambda>y. x + y) b)"

text \<open>
  \<open>makeDay\<close> is the day number of a year, month and day of the month, each of which may
  lie outside its usual range (day 0 is the last day of the previous month).
\<close>

definition makeDay :: "int \<Rightarrow> int \<Rightarrow> int \<Rightarrow> int" where
  "makeDay year month dt =
     (let ym = year + month div 12; mn = month mod 12
      in dayFromYear ym + monthStart (inLeapYear ym) mn + dt - 1)"

text \<open>
  \<^verbatim>\<open>new Date(year, month, day)\<close>: local midnight of that day, read back as a UTC instant
  and clipped. The constructor reads a year from 0 to 99 as 1900 to 1999.
\<close>

definition newDate3 :: "zone \<Rightarrow> int \<Rightarrow> int \<Rightarrow> int \<Rightarrow> jsdate" where
  "newDate3 z year month dt =
     (let yr = (if 0 \<le> year \<and> year \<le> 99 then 1900 + year else year)
      in TimeClip (UTC z (makeDay yr month dt * msPerDay)))"

text \<open>
  \<^verbatim>\<open>d.setDate(n)\<close>: day \<open>n\<close> of the local month of \<open>d\<close>, the local time of day
  unchanged; NaN when the date or \<open>n\<close> is NaN.
\<close>

fun setDate :: "zone \<Rightarrow> jsdate \<Rightarrow> int option \<Rightarrow> jsdate" where
  "setDate z InvalidDate dt = InvalidDate"
| "setDate z (DateAt t) None = InvalidDate"
| "setDate z (DateAt t) (Some dt) =
     (let l = LocalTime z t
      in TimeClip (UTC z (makeDay (YearFromTime l) (MonthFromTime l) dt * msPerDay + TimeWithinDay l)))"

section \<open>The month grid (renderCalendar, main.ts 1498-1514)\<close>

text \<open>\<open>currentDate\<close> is the time value of \<^verbatim>\<open>this.currentDate\<close>, a valid date.\<close>

definition firstDay :: "zone \<Rightarrow> int \<Rightarrow> jsdate" where
  "firstDay z currentDate = newDate3 z (getFullYear z currentDate) (getMonth z currentDate) 1"

definition daysToSubtract :: "zone \<Rightarrow> int \<Rightarrow> int option" where
  "daysToSubtract z currentDate =
     (let firstDayOfWeek = numberOf (getDay z) (firstDay z currentDate)
      in case firstDayOfWeek of
           None \<Rightarrow> None
         | Some w \<Rightarrow> Some (if w = 0 then 6 else w - 1))"

definition startDate :: "zone \<Rightarrow> int \<Rightarrow> jsdate" where
  "startDate z currentDate =
     (let startDate = firstDay z currentDate
      in setDate z startDate (num_minus (numberOf (getDate z) startDate) (daysToSubtract z currentDate)))"

text \<open>The dates of the cells, in the order of the loop \<^verbatim>\<open>for (let i = 0; i < 42; i++)\<close>.\<close>

definition gridCells :: "zone \<Rightarrow> int \<Rightarrow> jsdate list" where
  "gridCells z currentDate =
     map (\<lambda>i. setDate z (startDate z currentDate)
                (num_plus (numberOf (getDate z) (startDate z currentDate)) (Some (int i))))
       [0..<42]"

section \<open>The tasks of a cell (main.ts 1527-1561 and 1693-1727)\<close>

text \<open>\<open>now\<close> is the time value of \<^verbatim>\<open>new Date()\<close>.\<close>

definition getTasksForDate :: "zone \<Rightarrow> int \<Rightarrow> task list \<Rightarrow> jsdate \<Rightarrow> task list" where
  "getTasksForDate z now tasks date =
     (let dateStr = toDateString z date;
          today = setHours0 z (DateAt now);
          checkDate = setHours0 z date;
          isPastDate = time_lt checkDate today
      in filter (\<lambda>task.
           case task_date task of
             None \<Rightarrow> False
           | Some d \<Rightarrow>
               if toDateString z d \<noteq> dateStr then False
               else if isPastDate \<and> \<not> isCompleted task then False
               else True) tasks)"

definition getOverdueTasks :: "zone \<Rightarrow> int \<Rightarrow> task list \<Rightarrow> task list" where
  "getOverdueTasks z now tasks =
     (let today = setHours0 z (DateAt now)
      in filter (\<lambda>task.
           case task_date task of
             None \<Rightarrow> False
           | Some d \<Rightarrow> if date_ge d today then False else \<not> isCompleted task) tasks)"

text \<open>
  What one pass of the loop computes for a cell: the sorted task list that the cell hands
  to the day popup, the text of the count badge beside the day number (\<open>None\<close>: no
  badge), and the tasks drawn in the cell. \<^verbatim>\<open>Array.prototype.sort\<close> is stable and the
  comparison orders by \<^verbatim>\<open>isCompleted\<close> alone, which is \<open>sort_key isCompleted\<close>.
\<close>

record cellView =
  sortedDayTasks :: "task list"
  taskCountSpan :: "jsstring option"
  drawn :: "task list"

definition renderCell :: "zone \<Rightarrow> int \<Rightarrow> bool \<Rightarrow> task list \<Rightarrow> jsdate \<Rightarrow> cellView" where
  "renderCell z now showCompletedTasks tasks cellDate =
     (let today = setHours0 z (DateAt now);
          dayTasks = getTasksForDate z now tasks cellDate;
          dayTasks = (if time_eq cellDate today
                      then getOverdueTasks z now tasks @ dayTasks else dayTasks);
          dayTasks = (if \<not> showCompletedTasks
                      then filter (\<lambda>task. \<not> isCompleted task) dayTasks else dayTasks);
          sorted = sort_key isCompleted dayTasks;
          maxTasks = 4
      in \<lparr>sortedDayTasks = sorted,
          taskCountSpan = (if length sorted > 0 then Some (js '' +'' @ digits (length sorted)) else None),
          drawn = take maxTasks sorted\<rparr>)"

text \<open>
  \<^verbatim>\<open>renderCalendar\<close>: with no task at all it shows a message and no grid; otherwise one
  cell for each date of the grid.
\<close>

definition renderCalendar :: "zone \<Rightarrow> int \<Rightarrow> bool \<Rightarrow> task list \<Rightarrow> int \<Rightarrow> cellView list option" where
  "renderCalendar z now showCompletedTasks tasks currentDate =
     (if length tasks = 0 then None
      else Some (map (renderCell z now showCompletedTasks tasks) (gridCells z currentDate)))"


section \<open>Regular expressions\<close>

text \<open>
  The character classes of the patterns: \<^verbatim>\<open>\s\<close> (white space and line terminators),
  \<^verbatim>\<open>\d\<close>, and \<^verbatim>\<open>.\<close> (anything but a line terminator).
\<close>

definition isLineTerminator :: "nat \<Rightarrow> bool" where
  "isLineTerminator c = (c = 10 \<or> c = 13 \<or> c = 8232 \<or> c = 8233)"

definition isWhiteSpace :: "nat \<Rightarrow> bool" where
  "isWhiteSpace c =
     (c = 9 \<or> c = 10 \<or> c = 11 \<or> c = 12 \<or> c = 13 \<or> c = 32 \<or> c = 160 \<or> c = 5760 \<or>
      (8192 \<le> c \<and> c \<le> 8202) \<or> c = 8232 \<or> c = 8233 \<or> c = 8239 \<or> c = 8287 \<or>
      c = 12288 \<or> c = 65279)"

definition isDot :: "nat \<Rightarrow> bool" where
  "isDot c = (\<not> isLineTerminator c)"

definition isDigit :: "nat \<Rightarrow> bool" where
  "isDigit c = (48 \<le> c \<and> c \<le> 57)"

text \<open>
  The patterns of the plugin are sequences of: one character of a class, a greedy
  repetition of a class (\<^verbatim>\<open>*\<close>, \<^verbatim>\<open>+\<close>, \<^verbatim>\<open>{n}\<close>, \<^verbatim>\<open>{m,n}\<close>), an alternation of
  literal strings tried from left to right, the anchors \<^verbatim>\<open>^\<close> and \<^verbatim>\<open>$\<close> (no
  \<^verbatim>\<open>m\<close> flag: start and end of the input), and the parentheses of a capture group.
\<close>

datatype atom =
    Cls "nat \<Rightarrow> bool"
  | Rep "nat \<Rightarrow> bool" nat "nat option"
  | Alts "jsstring list"
  | Bol
  | Eol
  | Open nat
  | Close nat

text \<open>
  The state of a match: the position in the input, the groups whose parenthesis is open,
  and what each group has captured (\<open>None\<close>: undefined).
\<close>

record rxstate =
  rx_pos :: nat
  rx_open :: "nat list"
  rx_groups :: "nat \<Rightarrow> jsstring option"

definition rx_init :: "nat \<Rightarrow> rxstate" where
  "rx_init i = \<lparr>rx_pos = i, rx_open = [], rx_groups = (\<lambda>n. None)\<rparr>"

text \<open>Matching \<open>w\<close> moves the position and extends every open group.\<close>

definition consume :: "jsstring \<Rightarrow> rxstate \<Rightarrow> rxstate" where
  "consume w st =
     st\<lparr>rx_pos := rx_pos st + length w,
        rx_groups := (\<lambda>n. if n \<in> set (rx_open st)
                           then map_option (\<lambda>g. g @ w) (rx_groups st n)
                           else rx_groups st n)\<rparr>"

text \<open>Under the \<^verbatim>\<open>i\<close> flag both sides are compared in upper case.\<close>

definition canonicalize :: "bool \<Rightarrow> nat \<Rightarrow> nat" where
  "canonicalize ic c = (if ic \<and> 97 \<le> c \<and> c \<le> 122 then c - 32 else c)"

definition lit_at :: "bool \<Rightarrow> jsstring \<Rightarrow> jsstring \<Rightarrow> bool" where
  "lit_at ic l s =
     (length l \<le> length s \<and> map (canonicalize ic) (take (length l) s) = map (canonicalize ic) l)"

text \<open>The longest run a greedy repetition can take.\<close>

definition run_length :: "(nat \<Rightarrow> bool) \<Rightarrow> nat option \<Rightarrow> jsstring \<Rightarrow> nat" where
  "run_length P hi s =
     (let n = length (takeWhile P s) in case hi of None \<Rightarrow> n | Some h \<Rightarrow> min h n)"

text \<open>Backtracking: the longest run first, then shorter ones, down to \<open>lo\<close>.\<close>

fun try_down :: "(nat \<Rightarrow> 'a option) \<Rightarrow> nat \<Rightarrow> nat \<Rightarrow> 'a option" where
  "try_down f lo 0 = (if lo = 0 then f 0 else None)"
| "try_down f lo (Suc k) =
     (if Suc k < lo then None
      else case f (Suc k) of Some r \<Rightarrow> Some r | None \<Rightarrow> try_down f lo k)"

fun first_some :: "('a \<Rightarrow> 'b option) \<Rightarrow> 'a list \<Rightarrow> 'b option" where
  "first_some f [] = None"
| "first_some f (x # xs) = (case f x of Some r \<Rightarrow> Some r | None \<Rightarrow> first_some f xs)"

text \<open>\<open>rx_at ic atoms s st\<close> matches the atoms at the head of the rest \<open>s\<close> of the input.\<close>

primrec rx_at :: "bool \<Rightarrow> atom list \<Rightarrow> jsstring \<Rightarrow> rxstate \<Rightarrow> rxstate option" where
  "rx_at ic [] s st = Some st"
| "rx_at ic (a # as) s st =
     (case a of
        Cls P \<Rightarrow>
          (case s of
             [] \<Rightarrow> None
           | c # cs \<Rightarrow> if P c then rx_at ic as cs (consume [c] st) else None)
      | Rep P lo hi \<Rightarrow>
          try_down (\<lambda>k. rx_at ic as (drop k s) (consume (take k s) st)) lo (run_length P hi s)
      | Alts ls \<Rightarrow>
          first_some
            (\<lambda>l. if lit_at ic l s
                 then rx_at ic as (drop (length l) s) (consume (take (length l) s) st)
                 else None) ls
      | Bol \<Rightarrow> if rx_pos st = 0 then rx_at ic as s st else None
      | Eol \<Rightarrow> if s = [] then rx_at ic as s st else None
      | Open n \<Rightarrow>
          rx_at ic as s (st\<lparr>rx_open := n # rx_open st, rx_groups := (rx_groups st)(n := Some [])\<rparr>)
      | Close n \<Rightarrow> rx_at ic as s (st\<lparr>rx_open := removeAll n (rx_open st)\<rparr>))"

text \<open>The search for the first position at which the pattern matches.\<close>

fun rx_search :: "bool \<Rightarrow> atom list \<Rightarrow> nat \<Rightarrow> jsstring \<Rightarrow> rxstate option" where
  "rx_search ic as i [] = rx_at ic as [] (rx_init i)"
| "rx_search ic as i (c # cs) =
     (case rx_at ic as (c # cs) (rx_init i) of
        Some r \<Rightarrow> Some r
      | None \<Rightarrow> rx_search ic as (Suc i) cs)"

text \<open>
  \<^verbatim>\<open>s.match(pattern)\<close> for a pattern without the \<^verbatim>\<open>g\<close> flag: \<open>None\<close> is
  \<^verbatim>\<open>null\<close>, otherwise the groups by number.
\<close>

definition js_match :: "bool \<Rightarrow> atom list \<Rightarrow> jsstring \<Rightarrow> (nat \<Rightarrow> jsstring option) option" where
  "js_match ic as s = map_option rx_groups (rx_search ic as 0 s)"

section \<open>The checklist line (main.ts 1978)\<close>

definition isBullet :: "nat \<Rightarrow> bool" where
  "isBullet c = (c = 45 \<or> c = 42)"

text \<open>The markers \<^verbatim>\<open>[ xX\<close>, U+2713 and U+2705\<^verbatim>\<open>]\<close>.\<close>

definition isMarker :: "nat \<Rightarrow> bool" where
  "isMarker c = (c = 32 \<or> c = 120 \<or> c = 88 \<or> c = 10003 \<or> c = 9989)"

text \<open>\<^verbatim>\<open>/^([\s\t]*[-*])\s+\[([ xX..])\]\s+(.+)$/\<close>\<close>

definition taskLinePattern :: "atom list" where
  "taskLinePattern =
     [Bol, Open 1, Rep isWhiteSpace 0 None, Cls isBullet, Close 1,
      Rep isWhiteSpace 1 None, Cls (\<lambda>c. c = 91), Open 2, Cls isMarker, Close 2, Cls (\<lambda>c. c = 93),
      Rep isWhiteSpace 1 None, Open 3, Rep isDot 1 None, Close 3, Eol]"

section \<open>The vault\<close>

text \<open>
  The notes of the vault by path. \<^verbatim>\<open>vault.read\<close> throws for a path that holds no
  note; \<^verbatim>\<open>vault.modify\<close> throws for such a path and for a note that cannot be written
  (\<open>locked\<close>), and then leaves the vault as it was.
\<close>

datatype jserror = IOError | ApiError

record vault =
  files :: "jsstring \<Rightarrow> jsstring option"
  locked :: "jsstring \<Rightarrow> bool"

definition vault_read :: "vault \<Rightarrow> jsstring \<Rightarrow> jserror + jsstring" where
  "vault_read v p = (case files v p of None \<Rightarrow> Inl IOError | Some content \<Rightarrow> Inr content)"

definition vault_modify :: "vault \<Rightarrow> jsstring \<Rightarrow> jsstring \<Rightarrow> jserror + vault" where
  "vault_modify v p content =
     (if files v p = None \<or> locked v p then Inl IOError
      else Inr (v\<lparr>files := (files v)(p := Some content)\<rparr>))"

text \<open>\<^verbatim>\<open>content.split('\n')\<close> and \<^verbatim>\<open>lines.join('\n')\<close>.\<close>

fun split_nl :: "jsstring \<Rightarrow> jsstring list" where
  "split_nl [] = [[]]"
| "split_nl (c # cs) =
     (if c = 10 then [] # split_nl cs
      else case split_nl cs of [] \<Rightarrow> [[c]] | l # ls \<Rightarrow> (c # l) # ls)"

fun join_nl :: "jsstring list \<Rightarrow> jsstring" where
  "join_nl [] = []"
| "join_nl [l] = l"
| "join_nl (l # m # ls) = l @ 10 # join_nl (m # ls)"

section \<open>The direct toggle (toggleTaskCompletionDirect, main.ts 1965-2008)\<close>

text \<open>A group in a template literal; an undefined group prints as \<^verbatim>\<open>undefined\<close>.\<close>

definition group_text :: "(nat \<Rightarrow> jsstring option) \<Rightarrow> nat \<Rightarrow> jsstring" where
  "group_text g n = (case g n of None \<Rightarrow> js ''undefined'' | Some w \<Rightarrow> w)"

text \<open>
  The result is the returned boolean, the task object (the function assigns its
  \<^verbatim>\<open>isCompleted\<close>) and the vault. Every \<^verbatim>\<open>return false\<close>, and the \<^verbatim>\<open>catch\<close>
  around the whole body, leave both as they were.
\<close>

definition toggleTaskCompletionDirect :: "vault \<Rightarrow> task \<Rightarrow> bool \<times> task \<times> vault" where
  "toggleTaskCompletionDirect v task =
     (case vault_read v (path (task_file task)) of
        Inl e \<Rightarrow> (False, task, v)
      | Inr content \<Rightarrow>
          let lines = split_nl content in
          if task_line task \<ge> length lines then (False, task, v)
          else
            let line = lines ! task_line task in
            case js_match False taskLinePattern line of
              None \<Rightarrow> (False, task, v)
            | Some taskMatch \<Rightarrow>
                let indent = group_text taskMatch 1;
                    currentStatus = group_text taskMatch 2;
                    taskText = group_text taskMatch 3;
                    newStatus = (if currentStatus \<noteq> js '' '' \<and> currentStatus \<noteq> [] then js '' '' else js ''x'');
                    lines' = lines[task_line task := indent @ js '' ['' @ newStatus @ js ''] '' @ taskText]
                in case vault_modify v (path (task_file task)) (join_nl lines') of
                     Inl e \<Rightarrow> (False, task, v)
                   | Inr v' \<Rightarrow> (True, task\<lparr>isCompleted := (newStatus \<noteq> js '' '')\<rparr>, v'))"

section \<open>The completion toggle (toggleTaskCompletion, main.ts 1745-1963)\<close>

text \<open>
  The Tasks plugin and the host are outside the repository. An operation of theirs either
  throws and changes nothing, or completes and leaves a new vault. What
  \<^verbatim>\<open>executeToggleTaskDoneCommand\<close> returns is typed \<^verbatim>\<open>any\<close>: \<open>JString\<close> is a string,
  \<open>JOther w\<close> any other value without a method \<^verbatim>\<open>match\<close> (\<^verbatim>\<open>undefined\<close>,
  \<^verbatim>\<open>null\<close>, a number), where \<open>w\<close> is the text that \<^verbatim>\<open>join\<close> writes for it (empty
  for \<^verbatim>\<open>undefined\<close> and \<^verbatim>\<open>null\<close>). A task of the plugin's
  listing carries each value as the chain that reads it gives it
  (\<^verbatim>\<open>t.path || t.file?.path || t.filePath || ''\<close>, \<^verbatim>\<open>t.lineNumber || t.line || 0\<close>,
  \<^verbatim>\<open>t.dueDate || t.due || t.dueDateString\<close> and so on, the empty string when the chain
  ends without a value), and each optional method as \<open>Some\<close> when \<^verbatim>\<open>typeof\<close> finds a
  function.
\<close>

datatype jsany = JString jsstring | JOther jsstring

definition joinText :: "jsany \<Rightarrow> jsstring" where
  "joinText x = (case x of JString w \<Rightarrow> w | JOther w \<Rightarrow> w)"

record apiTask =
  api_path :: jsstring
  api_line :: nat
  api_dueDate :: jsstring
  api_startDate :: jsstring
  api_scheduledDate :: jsstring
  api_text :: jsstring
  api_status :: jsstring
  api_toggle :: "(vault \<Rightarrow> jserror + vault) option"
  api_toggleDone :: "(vault \<Rightarrow> jserror + vault) option"
  api_setCompletionStatus :: "(bool \<Rightarrow> vault \<Rightarrow> jserror + vault) option"

record tasksApi =
  executeToggleTaskDoneCommand :: "(jsstring \<Rightarrow> jsstring \<Rightarrow> jserror + jsany) option"
  toggleTask :: "(apiTask \<Rightarrow> vault \<Rightarrow> jserror + vault) option"
  getTasks :: "(jserror + apiTask list) option"
  getAllTasks :: "(jserror + apiTask list) option"
  cache :: "apiTask list option"

text \<open>
  The host: the API of the Tasks plugin when it is installed, what opening the note of a
  task in a leaf gives (an exception, or whether the view is a \<^verbatim>\<open>MarkdownView\<close>), and the
  execution of a command by its identifier.
\<close>

record host =
  tasksPluginApi :: "tasksApi option"
  openFile :: "jsstring \<Rightarrow> jserror + bool"
  executeCommandById :: "jsstring \<Rightarrow> vault \<Rightarrow> jserror + vault"

text \<open>
  The listing of the plugin, as methods 2 and 3 read it: \<open>None\<close> when no accessor is
  there, \<open>Inl\<close> when the accessor throws.
\<close>

definition allTasks :: "tasksApi \<Rightarrow> (jserror + apiTask list) option" where
  "allTasks api =
     (case getTasks api of
        Some r \<Rightarrow> Some r
      | None \<Rightarrow>
          (case getAllTasks api of
             Some r \<Rightarrow> Some r
           | None \<Rightarrow> (case cache api of Some ts \<Rightarrow> Some (Inr ts) | None \<Rightarrow> None)))"

definition findApiTask :: "task \<Rightarrow> apiTask list \<Rightarrow> apiTask option" where
  "findApiTask task ts =
     find (\<lambda>t. api_path t = path (task_file task) \<and> api_line t = task_line task) ts"

definition flipped :: "task \<Rightarrow> task" where
  "flipped task = task\<lparr>isCompleted := \<not> isCompleted task\<rparr>"

text \<open>\<^verbatim>\<open>/^[\s\t]*[-*]\s+\[([ xX..])\]/\<close>, which method 1 matches on the replacement line.\<close>

definition statusPattern :: "atom list" where
  "statusPattern =
     [Bol, Rep isWhiteSpace 0 None, Cls isBullet, Rep isWhiteSpace 1 None,
      Cls (\<lambda>c. c = 91), Open 1, Cls isMarker, Close 1, Cls (\<lambda>c. c = 93)]"

text \<open>
  What a method leaves: the function has returned, or an exception was caught and the next
  method runs on the vault as it is by then.
\<close>

datatype outcome = Returned "bool \<times> task \<times> vault" | FellThrough vault

text \<open>
  Method 1. The line that the command returned is written to the note before
  \<^verbatim>\<open>newTaskLine.match\<close> is called on it, inside the same \<^verbatim>\<open>try\<close>: for a value that
  is not a string the call throws after the write.
\<close>

definition toggleByCommandLine ::
  "(jsstring \<Rightarrow> jsstring \<Rightarrow> jserror + jsany) \<Rightarrow> vault \<Rightarrow> task \<Rightarrow> outcome" where
  "toggleByCommandLine cmd v task =
     (case vault_read v (path (task_file task)) of
        Inl e \<Rightarrow> FellThrough v
      | Inr content \<Rightarrow>
          let lines = split_nl content in
          if task_line task \<ge> length lines then Returned (toggleTaskCompletionDirect v task)
          else
            (case cmd (lines ! task_line task) (path (task_file task)) of
               Inl e \<Rightarrow> FellThrough v
             | Inr newTaskLine \<Rightarrow>
                 (case vault_modify v (path (task_file task))
                         (join_nl (lines[task_line task := joinText newTaskLine])) of
                    Inl e \<Rightarrow> FellThrough v
                  | Inr v' \<Rightarrow>
                      (case newTaskLine of
                         JOther w \<Rightarrow> FellThrough v'
                       | JString line \<Rightarrow>
                           Returned (True,
                             task\<lparr>isCompleted :=
                               (case js_match False statusPattern line of
                                  Some taskMatch \<Rightarrow>
                                    group_text taskMatch 1 \<noteq> js '' '' \<and> group_text taskMatch 1 \<noteq> []
                                | None \<Rightarrow> \<not> isCompleted task)\<rparr>,
                             v')))))"

text \<open>Method 2: \<^verbatim>\<open>tasksApi.toggleTask\<close> on the task of the listing.\<close>

definition toggleByApi ::
  "tasksApi \<Rightarrow> (apiTask \<Rightarrow> vault \<Rightarrow> jserror + vault) \<Rightarrow> vault \<Rightarrow> task \<Rightarrow> (bool \<times> task \<times> vault) option" where
  "toggleByApi api tt v task =
     (case (case allTasks api of None \<Rightarrow> Inr [] | Some r \<Rightarrow> r) of
        Inl e \<Rightarrow> None
      | Inr ts \<Rightarrow>
          (case findApiTask task ts of
             None \<Rightarrow> None
           | Some apiTask \<Rightarrow>
               (case tt apiTask v of
                  Inl e \<Rightarrow> None
                | Inr v' \<Rightarrow> Some (True, flipped task, v'))))"

text \<open>The identifiers that \<^verbatim>\<open>toggleTaskViaCommand\<close> tries, in order.\<close>

definition commands :: "jsstring list" where
  "commands =
     [js ''tasks:toggle-task'', js ''tasks:toggle-done'', js ''tasks:mark-task-complete'',
      js ''tasks:mark-task-incomplete'', js ''tasks-plugin:toggle-task'',
      js ''tasks-plugin:toggle-done'', js ''tasks-plugin:mark-task-complete'',
      js ''tasks-plugin:mark-task-incomplete'']"

definition targetCommands :: "task \<Rightarrow> jsstring list" where
  "targetCommands task =
     (if isCompleted task
      then filter (\<lambda>cmd. str_includes cmd (js ''incomplete'') \<or> str_includes cmd (js ''toggle'')) commands
      else filter (\<lambda>cmd. str_includes cmd (js ''complete'') \<or> str_includes cmd (js ''toggle'')) commands)"

fun tryCommands :: "host \<Rightarrow> vault \<Rightarrow> jsstring list \<Rightarrow> vault option" where
  "tryCommands h v [] = None"
| "tryCommands h v (commandId # rest) =
     (case executeCommandById h commandId v of
        Inr v' \<Rightarrow> Some v'
      | Inl e \<Rightarrow> tryCommands h v rest)"

definition toggleTaskViaCommand :: "host \<Rightarrow> vault \<Rightarrow> task \<Rightarrow> bool \<times> task \<times> vault" where
  "toggleTaskViaCommand h v task =
     (case openFile h (path (task_file task)) of
        Inr True \<Rightarrow>
          (case tryCommands h v (targetCommands task) of
             Some v' \<Rightarrow> (True, flipped task, v')
           | None \<Rightarrow> toggleTaskCompletionDirect v task)
      | _ \<Rightarrow> toggleTaskCompletionDirect v task)"

text \<open>Methods 4 to 6 on the task of the listing, then method 7.\<close>

definition toggleByTaskMethods :: "host \<Rightarrow> apiTask \<Rightarrow> vault \<Rightarrow> task \<Rightarrow> bool \<times> task \<times> vault" where
  "toggleByTaskMethods h apiTask v task =
     (case (case api_toggle apiTask of None \<Rightarrow> Inl ApiError | Some f \<Rightarrow> f v) of
        Inr v' \<Rightarrow> (True, flipped task, v')
      | Inl e \<Rightarrow>
          (case (case api_toggleDone apiTask of None \<Rightarrow> Inl ApiError | Some f \<Rightarrow> f v) of
             Inr v' \<Rightarrow> (True, flipped task, v')
           | Inl e \<Rightarrow>
               (case (case api_setCompletionStatus apiTask of
                        None \<Rightarrow> Inl ApiError
                      | Some f \<Rightarrow> f (\<not> isCompleted task) v) of
                  Inr v' \<Rightarrow> (True, flipped task, v')
                | Inl e \<Rightarrow> toggleTaskViaCommand h v task)))"

text \<open>Method 3 and what follows it; an exception of the listing reaches the outer \<^verbatim>\<open>catch\<close>.\<close>

definition toggleByListing :: "host \<Rightarrow> tasksApi \<Rightarrow> vault \<Rightarrow> task \<Rightarrow> bool \<times> task \<times> vault" where
  "toggleByListing h api v task =
     (case allTasks api of
        None \<Rightarrow> toggleTaskViaCommand h v task
      | Some (Inl e) \<Rightarrow> toggleTaskCompletionDirect v task
      | Some (Inr ts) \<Rightarrow>
          (case findApiTask task ts of
             None \<Rightarrow> toggleTaskViaCommand h v task
           | Some apiTask \<Rightarrow> toggleByTaskMethods h apiTask v task))"

definition toggleTaskCompletion :: "host \<Rightarrow> vault \<Rightarrow> task \<Rightarrow> bool \<times> task \<times> vault" where
  "toggleTaskCompletion h v task =
     (case tasksPluginApi h of
        None \<Rightarrow> toggleTaskCompletionDirect v task
      | Some api \<Rightarrow>
          (case (case executeToggleTaskDoneCommand api of
                   None \<Rightarrow> FellThrough v
                 | Some cmd \<Rightarrow> toggleByCommandLine cmd v task) of
             Returned r \<Rightarrow> r
           | FellThrough v1 \<Rightarrow>
               (case (case toggleTask api of
                        None \<Rightarrow> None
                      | Some tt \<Rightarrow> toggleByApi api tt v1 task) of
                  Some r \<Rightarrow> r
                | None \<Rightarrow> toggleByListing h api v1 task)))"

section \<open>The checkbox of the day popup (attachCheckboxHandlers, main.ts 2642-2674)\<close>

text \<open>
  The \<^verbatim>\<open>change\<close> handler, from the state \<open>checked\<close> in which the event leaves the
  checkbox. It gives the state of the checkbox when the handler ends, the task and the
  vault; the reload and the redrawing after a success are not part of it.
\<close>

definition onCheckboxChange :: "host \<Rightarrow> vault \<Rightarrow> task \<Rightarrow> bool \<Rightarrow> bool \<times> task \<times> vault" where
  "onCheckboxChange h v task checked =
     (let wasChecked = checked;
          checked = isCompleted task
      in case toggleTaskCompletion h v task of
           (success, task', v') \<Rightarrow>
             if success then (isCompleted task', task', v') else (\<not> wasChecked, task', v'))"

text \<open>A click turns the checkbox over and raises the event.\<close>

definition clickCheckbox :: "host \<Rightarrow> vault \<Rightarrow> task \<Rightarrow> bool \<Rightarrow> bool \<times> task \<times> vault" where
  "clickCheckbox h v task original = onCheckboxChange h v task (\<not> original)"

section \<open>Dates in text (extractDateFromText, main.ts 200-223 and 806-829)\<close>

text \<open>
  The patterns, in the order of the loop:
  \<^verbatim>\<open>/(?:..|due::|due:|start::|start:|scheduled::|scheduled:)\s*(\d{4}-\d{2}-\d{2})/i\<close>
  (the first alternative is the calendar emoji), \<^verbatim>\<open>/(\d{4}-\d{2}-\d{2})/\<close>,
  \<^verbatim>\<open>/(\d{1,2}\/\d{1,2}\/\d{4})/\<close> and \<^verbatim>\<open>/(\d{1,2}\.\d{1,2}\.\d{4})/\<close>, each with its
  \<^verbatim>\<open>i\<close> flag.
\<close>

definition isoDateAtoms :: "atom list" where
  "isoDateAtoms =
     [Open 1, Rep isDigit 4 (Some 4), Cls (\<lambda>c. c = 45), Rep isDigit 2 (Some 2),
      Cls (\<lambda>c. c = 45), Rep isDigit 2 (Some 2), Close 1]"

definition dayFirstAtoms :: "nat \<Rightarrow> atom list" where
  "dayFirstAtoms sep =
     [Open 1, Rep isDigit 1 (Some 2), Cls (\<lambda>c. c = sep), Rep isDigit 1 (Some 2),
      Cls (\<lambda>c. c = sep), Rep isDigit 4 (Some 4), Close 1]"

definition datePatterns :: "(bool \<times> atom list) list" where
  "datePatterns =
     [(True, Alts [calendarEmoji, js ''due::'', js ''due:'', js ''start::'', js ''start:'',
                   js ''scheduled::'', js ''scheduled:''] # Rep isWhiteSpace 0 None # isoDateAtoms),
      (False, isoDateAtoms),
      (False, dayFirstAtoms 47),
      (False, dayFirstAtoms 46)]"

text \<open>
  \<open>newDate\<close> is the constructor \<^verbatim>\<open>new Date(string)\<close>, whose reading of a string is
  left to the engine; \<open>None\<close> is \<^verbatim>\<open>null\<close>.
\<close>

fun extractLoop ::
  "zone \<Rightarrow> (jsstring \<Rightarrow> jsdate) \<Rightarrow> (bool \<times> atom list) list \<Rightarrow> jsstring \<Rightarrow> jsdate option" where
  "extractLoop z newDate [] s = None"
| "extractLoop z newDate ((ic, pattern) # patterns) s =
     (case js_match ic pattern s of
        None \<Rightarrow> extractLoop z newDate patterns s
      | Some m \<Rightarrow>
          let dateStr = group_text m 1;
              date = newDate dateStr
          in if \<not> isNaN_getTime date then Some (setHours0 z date)
             else extractLoop z newDate patterns s)"

definition extractDateFromText :: "zone \<Rightarrow> (jsstring \<Rightarrow> jsdate) \<Rightarrow> jsstring \<Rightarrow> jsdate option" where
  "extractDateFromText z newDate s = extractLoop z newDate datePatterns s"

section \<open>The date of a new task (insertTask, main.ts 151-175)\<close>

text \<open>\<^verbatim>\<open>s.trim()\<close>, \<^verbatim>\<open>String(n)\<close> for an integer and \<^verbatim>\<open>s.padStart(2, '0')\<close>.\<close>

definition trim :: "jsstring \<Rightarrow> jsstring" where
  "trim s = rev (dropWhile isWhiteSpace (rev (dropWhile isWhiteSpace s)))"

definition numberString :: "int \<Rightarrow> jsstring" where
  "numberString n = (if n < 0 then 45 # digits (nat (- n)) else digits (nat n))"

definition padStart2 :: "jsstring \<Rightarrow> jsstring" where
  "padStart2 s = replicate (2 - length s) 48 @ s"

text \<open>\<^verbatim>\<open>`${year}-${month}-${day}`\<close> of a valid date.\<close>

definition dateStr :: "zone \<Rightarrow> int \<Rightarrow> jsstring" where
  "dateStr z date =
     (let year = getFullYear z date;
          month = padStart2 (numberString (getMonth z date + 1));
          day = padStart2 (numberString (getDate z date))
      in numberString year @ js ''-'' @ month @ js ''-'' @ day)"

text \<open>\<^verbatim>\<open>/due::|due:|start::|start:|scheduled::|scheduled:|../i\<close>, the test \<^verbatim>\<open>hasDate\<close>.\<close>

definition dateKeywords :: "jsstring list" where
  "dateKeywords =
     [js ''due::'', js ''due:'', js ''start::'', js ''start:'', js ''scheduled::'',
      js ''scheduled:'', calendarEmoji]"

definition hasDatePattern :: "atom list" where
  "hasDatePattern = [Alts dateKeywords]"

text \<open>
  The date is the optional argument of \<^verbatim>\<open>insertTask\<close>, a valid date when it is given;
  \<open>taskLine\<close> is the line that the modal returned.
\<close>

definition finalTaskLine :: "zone \<Rightarrow> int option \<Rightarrow> jsstring \<Rightarrow> jsstring" where
  "finalTaskLine z date taskLine =
     (case date of
        None \<Rightarrow> taskLine
      | Some d \<Rightarrow>
          let hasDate = js_match True hasDatePattern taskLine
          in if hasDate = None then trim taskLine @ js '' due::'' @ dateStr z d else taskLine)"

definition targetDate ::
  "zone \<Rightarrow> (jsstring \<Rightarrow> jsdate) \<Rightarrow> int \<Rightarrow> int option \<Rightarrow> jsstring \<Rightarrow> jsdate" where
  "targetDate z newDate now date taskLine =
     (let targetDate = map_option DateAt date;
          extractedDate = extractDateFromText z newDate (finalTaskLine z date taskLine);
          targetDate = (case extractedDate of Some e \<Rightarrow> Some e | None \<Rightarrow> targetDate)
      in case targetDate of None \<Rightarrow> DateAt now | Some t \<Rightarrow> t)"

text \<open>A keyword occurs in a string, letters compared without case.\<close>

fun occursNoCase :: "jsstring \<Rightarrow> jsstring \<Rightarrow> bool" where
  "occursNoCase [] kw = lit_at True kw []"
| "occursNoCase (c # cs) kw = (lit_at True kw (c # cs) \<or> occursNoCase cs kw)"

definition keywordIn :: "jsstring \<Rightarrow> bool" where
  "keywordIn s = (\<exists>kw \<in> set dateKeywords. occursNoCase s kw)"

text \<open>
  A constructor for the examples: it reads the \<^verbatim>\<open>YYYY-MM-DD\<close> of a day of the calendar
  as midnight UTC of that day, as \<^verbatim>\<open>new Date(string)\<close> does, and nothing else.
\<close>

definition daysInMonth :: "int \<Rightarrow> int \<Rightarrow> int" where
  "daysInMonth year month = makeDay year (month + 1) 1 - makeDay year month 1"

definition isoNewDate :: "jsstring \<Rightarrow> jsdate" where
  "isoNewDate s =
     (if length s = 10 \<and> list_all isDigit (take 4 s) \<and> s ! 4 = 45 \<and>
         list_all isDigit (take 2 (drop 5 s)) \<and> s ! 7 = 45 \<and> list_all isDigit (drop 8 s)
      then
        (let year = int (undigits (take 4 s));
             month = int (undigits (take 2 (drop 5 s)));
             day = int (undigits (drop 8 s))
         in if 1 \<le> month \<and> month \<le> 12 \<and> 1 \<le> day \<and> day \<le> daysInMonth year (month - 1)
            then TimeClip (makeDay year (month - 1) day * msPerDay)
            else InvalidDate)
      else InvalidDate)"

section \<open>Discovery of the tasks (loadTasks, main.ts 604-949)\<close>

text \<open>
  What the discovery reads besides the vault: the settings, the constructor
  \<^verbatim>\<open>new Date(value)\<close>, the strict parse \<^verbatim>\<open>moment(name, format, true)\<close> (\<open>None\<close>: not
  valid, otherwise the time value of \<^verbatim>\<open>toDate()\<close>), the current time and the local
  time zone.
\<close>

record env =
  calendarFolderPath :: jsstring
  tasksFolderPath :: jsstring
  filenameFormat :: jsstring
  newDateOf :: "jsstring \<Rightarrow> jsdate"
  momentParse :: "jsstring \<Rightarrow> jsstring \<Rightarrow> int option"
  currentTime :: int
  timeZone :: zone

text \<open>\<^verbatim>\<open>a || b\<close> on strings, and \<^verbatim>\<open>s.replace(/^\/+|\/+$/g, '')\<close>.\<close>

definition js_or :: "jsstring \<Rightarrow> jsstring \<Rightarrow> jsstring" where
  "js_or a b = (if a \<noteq> [] then a else b)"

definition stripSlashes :: "jsstring \<Rightarrow> jsstring" where
  "stripSlashes s = rev (dropWhile (\<lambda>c. c = 47) (rev (dropWhile (\<lambda>c. c = 47) s)))"

definition normalizedFolderPath :: "env \<Rightarrow> jsstring" where
  "normalizedFolderPath e =
     (let folderPath = trim (js_or (calendarFolderPath e) (js_or (tasksFolderPath e) []))
      in if folderPath \<noteq> [] then stripSlashes folderPath else [])"

definition inScope :: "env \<Rightarrow> tfile \<Rightarrow> bool" where
  "inScope e file =
     (normalizedFolderPath e = [] \<or> startsWith (stripSlashes (path file)) (normalizedFolderPath e))"

text \<open>\<^verbatim>\<open>s.split('-')\<close>, in general \<open>splitOn sep\<close>.\<close>

fun splitOn :: "nat \<Rightarrow> jsstring \<Rightarrow> jsstring list" where
  "splitOn sep [] = [[]]"
| "splitOn sep (c # cs) =
     (if c = sep then [] # splitOn sep cs
      else case splitOn sep cs of [] \<Rightarrow> [[c]] | l # ls \<Rightarrow> (c # l) # ls)"

definition today :: "env \<Rightarrow> jsdate" where
  "today e = setHours0 (timeZone e) (DateAt (currentTime e))"

text \<open>\<^verbatim>\<open>/^\d{4}-\d{2}$/\<close>\<close>

definition legacyPattern :: "atom list" where
  "legacyPattern = [Bol, Rep isDigit 4 (Some 4), Cls (\<lambda>c. c = 45), Rep isDigit 2 (Some 2), Eol]"

text \<open>The date that the name of the note gives (main.ts 703-717 and 906-920).\<close>

definition fileDate :: "env \<Rightarrow> tfile \<Rightarrow> jsdate" where
  "fileDate e file =
     (let fileName = basename file;
          format = js_or (filenameFormat e) (js ''YYYY-MM'')
      in case momentParse e fileName format of
           Some t \<Rightarrow> DateAt t
         | None \<Rightarrow>
             if js_match False legacyPattern fileName \<noteq> None
             then (case map undigits (splitOn 45 fileName) of
                     year # month # rest \<Rightarrow> newDate3 (timeZone e) (int year) (int month - 1) 1
                   | _ \<Rightarrow> InvalidDate)
             else today e)"

text \<open>The date of a task found by the scan (main.ts 899-930).\<close>

definition manualDate :: "env \<Rightarrow> tfile \<Rightarrow> jsstring \<Rightarrow> jsdate" where
  "manualDate e file fullTaskText =
     (let taskDate = extractDateFromText (timeZone e) (newDateOf e) fullTaskText;
          taskDate = (case taskDate of None \<Rightarrow> fileDate e file | Some d \<Rightarrow> d);
          taskDate = (if isNaN_getTime taskDate then today e else taskDate)
      in setHours0 (timeZone e) taskDate)"

text \<open>\<^verbatim>\<open>!taskDate || isNaN(taskDate.getTime())\<close>\<close>

definition noDate :: "jsdate option \<Rightarrow> bool" where
  "noDate d = (case d of None \<Rightarrow> True | Some x \<Rightarrow> isNaN_getTime x)"

text \<open>The date of a task of the plugin's listing (main.ts 680-727).\<close>

definition apiDate :: "env \<Rightarrow> tfile \<Rightarrow> apiTask \<Rightarrow> jsdate" where
  "apiDate e file t =
     (let taskDate =
            (if api_dueDate t \<noteq> [] then Some (newDateOf e (api_dueDate t))
             else if api_startDate t \<noteq> [] then Some (newDateOf e (api_startDate t))
             else if api_scheduledDate t \<noteq> [] then Some (newDateOf e (api_scheduledDate t))
             else None);
          taskDate = (if noDate taskDate
                      then extractDateFromText (timeZone e) (newDateOf e) (api_text t) else taskDate);
          taskDate = (if noDate taskDate then Some (fileDate e file) else taskDate);
          taskDate = (case taskDate of
                        None \<Rightarrow> today e
                      | Some d \<Rightarrow> if isNaN_getTime d then today e else d)
      in setHours0 (timeZone e) taskDate)"

text \<open>
  The patterns of the scan: \<^verbatim>\<open>/^([\s\t]*)[-*]\s+\[([ xX..])\]\s+(.+)$/\<close> for a task
  line, \<^verbatim>\<open>/^[\s\t]*/\<close> for the indent of a following line (group 0 is the whole match),
  and the two that the listing strategy applies to the line of the note,
  \<^verbatim>\<open>/^([\s\t]*)[-*]\s+\[([ xX..])\]/\<close> and \<^verbatim>\<open>/^[\s\t]*[-*]\s+\[([ xX..])\]\s+(.+)$/\<close>.
\<close>

definition scanPattern :: "atom list" where
  "scanPattern =
     [Bol, Open 1, Rep isWhiteSpace 0 None, Close 1, Cls isBullet,
      Rep isWhiteSpace 1 None, Cls (\<lambda>c. c = 91), Open 2, Cls isMarker, Close 2, Cls (\<lambda>c. c = 93),
      Rep isWhiteSpace 1 None, Open 3, Rep isDot 1 None, Close 3, Eol]"

definition indentPattern :: "atom list" where
  "indentPattern = [Bol, Open 0, Rep isWhiteSpace 0 None, Close 0]"

definition apiLinePattern :: "atom list" where
  "apiLinePattern =
     [Bol, Open 1, Rep isWhiteSpace 0 None, Close 1, Cls isBullet,
      Rep isWhiteSpace 1 None, Cls (\<lambda>c. c = 91), Open 2, Cls isMarker, Close 2, Cls (\<lambda>c. c = 93)]"

definition apiTextPattern :: "atom list" where
  "apiTextPattern =
     [Bol, Rep isWhiteSpace 0 None, Cls isBullet,
      Rep isWhiteSpace 1 None, Cls (\<lambda>c. c = 91), Open 1, Cls isMarker, Close 1, Cls (\<lambda>c. c = 93),
      Rep isWhiteSpace 1 None, Open 2, Rep isDot 1 None, Close 2, Eol]"

text \<open>The lines that follow a task and are nested under it: blank, or indented deeper.\<close>

fun collectNested :: "nat \<Rightarrow> jsstring list \<Rightarrow> jsstring list" where
  "collectNested taskIndentLength [] = []"
| "collectNested taskIndentLength (nextLine # rest) =
     (if trim nextLine = [] then nextLine # collectNested taskIndentLength rest
      else
        let nextLineIndent =
              (case js_match False indentPattern nextLine of
                 None \<Rightarrow> []
               | Some m \<Rightarrow> js_or (group_text m 0) [])
        in if length nextLineIndent > taskIndentLength
           then nextLine # collectNested taskIndentLength rest
           else [])"

text \<open>One line of a note in the scan; \<open>rest\<close> are the lines after it (main.ts 859-942).\<close>

definition scanLine :: "env \<Rightarrow> tfile \<Rightarrow> nat \<Rightarrow> jsstring \<Rightarrow> jsstring list \<Rightarrow> task option" where
  "scanLine e file i line rest =
     (case js_match False scanPattern line of
        None \<Rightarrow> None
      | Some taskMatch \<Rightarrow>
          let taskIndent = group_text taskMatch 1;
              completed = (group_text taskMatch 2 \<noteq> js '' '' \<and> group_text taskMatch 2 \<noteq> []);
              taskText = group_text taskMatch 3
          in if \<not> str_includes taskText calendarEmoji then None
             else
               let nestedLines = collectNested (length taskIndent) rest;
                   fullTaskText = taskText @ (if length nestedLines > 0 then 10 # join_nl nestedLines else [])
               in Some \<lparr>task_text = fullTaskText,
                         task_date = Some (manualDate e file fullTaskText),
                         task_file = file,
                         task_line = i,
                         isCompleted = completed\<rparr>)"

fun scanLines :: "env \<Rightarrow> tfile \<Rightarrow> nat \<Rightarrow> jsstring list \<Rightarrow> task list" where
  "scanLines e file i [] = []"
| "scanLines e file i (line # rest) =
     (case scanLine e file i line rest of None \<Rightarrow> [] | Some t \<Rightarrow> [t]) @ scanLines e file (Suc i) rest"

text \<open>
  \<^verbatim>\<open>loadTasksManually\<close>; \<open>markdownFiles\<close> is \<^verbatim>\<open>vault.getMarkdownFiles()\<close>. A note that
  cannot be read is skipped.
\<close>

definition loadTasksManually :: "env \<Rightarrow> vault \<Rightarrow> tfile list \<Rightarrow> task list" where
  "loadTasksManually e v markdownFiles =
     concat (map (\<lambda>file.
        if \<not> inScope e file then []
        else case vault_read v (path file) of
               Inl err \<Rightarrow> []
             | Inr content \<Rightarrow> scanLines e file 0 (split_nl content)) markdownFiles)"

text \<open>\<^verbatim>\<open>vault.getAbstractFileByPath\<close> for a note: its name without folder and extension.\<close>

definition basenameOf :: "jsstring \<Rightarrow> jsstring" where
  "basenameOf p =
     (let name = rev (takeWhile (\<lambda>c. c \<noteq> 47) (rev p));
          r = dropWhile (\<lambda>c. c \<noteq> 46) (rev name)
      in if r = [] then name else rev (tl r))"

definition getAbstractFileByPath :: "vault \<Rightarrow> jsstring \<Rightarrow> tfile option" where
  "getAbstractFileByPath v p =
     (case files v p of None \<Rightarrow> None | Some content \<Rightarrow> Some \<lparr>path = p, basename = basenameOf p\<rparr>)"

text \<open>The text of a task of the listing with its nested lines from the note (main.ts 730-779).\<close>

definition apiTaskText :: "vault \<Rightarrow> tfile \<Rightarrow> apiTask \<Rightarrow> jsstring" where
  "apiTaskText v file t =
     (let taskText = api_text t;
          taskLineNumber = api_line t
      in case vault_read v (path file) of
           Inl err \<Rightarrow> taskText
         | Inr fileContent \<Rightarrow>
             let lines = split_nl fileContent in
             if taskLineNumber < length lines then
               (let taskLine = lines ! taskLineNumber in
                case js_match False apiLinePattern taskLine of
                  None \<Rightarrow> taskText
                | Some taskMatch \<Rightarrow>
                    let nestedLines = collectNested (length (group_text taskMatch 1))
                                        (drop (taskLineNumber + 1) lines)
                    in if length nestedLines > 0 then
                         (case js_match False apiTextPattern taskLine of
                            None \<Rightarrow> taskText
                          | Some taskTextMatch \<Rightarrow> group_text taskTextMatch 2 @ 10 # join_nl nestedLines)
                       else taskText)
             else taskText)"

text \<open>One task of the listing (main.ts 659-796); \<open>None\<close> is \<^verbatim>\<open>continue\<close>.\<close>

definition apiTaskToTask :: "env \<Rightarrow> vault \<Rightarrow> apiTask \<Rightarrow> task option" where
  "apiTaskToTask e v t =
     (let taskPath = api_path t in
      if taskPath = [] then None
      else case getAbstractFileByPath v taskPath of
             None \<Rightarrow> None
           | Some file \<Rightarrow>
               if \<not> inScope e file then None
               else
                 let taskDate = apiDate e file t;
                     taskText = apiTaskText v file t
                 in if \<not> str_includes taskText calendarEmoji then None
                    else
                      let taskStatus = api_status t
                      in Some \<lparr>task_text = taskText,
                                task_date = Some taskDate,
                                task_file = file,
                                task_line = api_line t,
                                isCompleted = (taskStatus \<noteq> js '' '' \<and> taskStatus \<noteq> [] \<and>
                                               taskStatus \<noteq> js ''todo'')\<rparr>)"

text \<open>
  \<^verbatim>\<open>loadTasksFromAPI\<close>: without a listing, or when the listing throws, the scan runs
  instead.
\<close>

definition loadTasksFromAPI :: "env \<Rightarrow> vault \<Rightarrow> tfile list \<Rightarrow> tasksApi \<Rightarrow> task list" where
  "loadTasksFromAPI e v markdownFiles api =
     (case allTasks api of
        None \<Rightarrow> loadTasksManually e v markdownFiles
      | Some (Inl err) \<Rightarrow> loadTasksManually e v markdownFiles
      | Some (Inr ts) \<Rightarrow> List.map_filter (apiTaskToTask e v) ts)"

definition loadTasks :: "env \<Rightarrow> host \<Rightarrow> vault \<Rightarrow> tfile list \<Rightarrow> task list" where
  "loadTasks e h v markdownFiles =
     loadTasks_finish
       (case tasksPluginApi h of
          Some api \<Rightarrow> loadTasksFromAPI e v markdownFiles api
        | None \<Rightarrow> loadTasksManually e v markdownFiles)"

section \<open>Auxiliary notions for the statements\<close>

text \<open>The association list of the deduplication is \<open>keyed\<close> when every entry sits under
  the key of its own task and no key occurs twice.\<close>

definition keyed :: "(jsstring \<times> task) list \<Rightarrow> bool" where
  "keyed m = (distinct (map fst m) \<and> list_all (\<lambda>(k, v). k = taskKey v) m)"

text \<open>What the checklist pattern accepts, read off deterministically from the line: the text
  after the box, the box, the bullet, the whole line. The lemma \<open>taskLine_match_parse\<close> shows
  that the backtracking matcher on \<open>taskLinePattern\<close> computes exactly \<open>parseTaskLine\<close>.\<close>

definition parseText :: "jsstring \<Rightarrow> jsstring option" where
  "parseText s =
     (if dropWhile isWhiteSpace s \<noteq> []
      then (if takeWhile isWhiteSpace s \<noteq> [] \<and> list_all isDot (dropWhile isWhiteSpace s)
            then Some (dropWhile isWhiteSpace s) else None)
      else (if 2 \<le> length s \<and> isDot (last s) then Some [last s] else None))"

definition parseBox :: "jsstring \<Rightarrow> (nat \<times> jsstring) option" where
  "parseBox s =
     (case s of
        lb # m # rb # r \<Rightarrow>
          if lb = 91 \<and> isMarker m \<and> rb = 93 then map_option (Pair m) (parseText r) else None
      | _ \<Rightarrow> None)"

definition parseBullet :: "jsstring \<Rightarrow> (nat \<times> nat \<times> jsstring) option" where
  "parseBullet s =
     (case s of
        [] \<Rightarrow> None
      | b # r \<Rightarrow>
          if isBullet b \<and> takeWhile isWhiteSpace r \<noteq> []
          then map_option (Pair b) (parseBox (dropWhile isWhiteSpace r)) else None)"

definition parseTaskLine :: "jsstring \<Rightarrow> (jsstring \<times> nat \<times> jsstring) option" where
  "parseTaskLine line =
     map_option (\<lambda>(b, m, t). (takeWhile isWhiteSpace line @ [b], m, t))
       (parseBullet (dropWhile isWhiteSpace line))"

text \<open>Suffixes of \<open>taskLinePattern\<close>, and the matcher state once the text group is closed.\<close>

definition text_tail :: "atom list" where
  "text_tail = [Open 3, Rep isDot 1 None, Close 3, Eol]"

definition text_final :: "jsstring \<Rightarrow> rxstate \<Rightarrow> rxstate" where
  "text_final s st =
     (consume s (st\<lparr>rx_open := 3 # rx_open st, rx_groups := (rx_groups st)(3 := Some [])\<rparr>))
       \<lparr>rx_open := removeAll 3 (3 # rx_open st)\<rparr>"

definition line_tail2 :: "atom list" where
  "line_tail2 = Cls (\<lambda>c. c = 91) # Open 2 # Cls isMarker # Close 2 # Cls (\<lambda>c. c = 93) #
      Rep isWhiteSpace 1 None # text_tail"

definition line_tail1 :: "atom list" where
  "line_tail1 = Cls isBullet # Close 1 # Rep isWhiteSpace 1 None # line_tail2"

text \<open>Two direct toggles in a row, the second on the task and the vault the first returned.\<close>

definition toggleTwice :: "vault \<Rightarrow> task \<Rightarrow> bool \<times> task \<times> vault" where
  "toggleTwice v task =
     (case toggleTaskCompletionDirect v task of
        (ok1, task1, v1) \<Rightarrow>
          (case toggleTaskCompletionDirect v1 task1 of
             (ok2, task2, v2) \<Rightarrow> (ok1 \<and> ok2, task2, v2)))"

text \<open>
  The start of the local day of \<open>t\<close> as \<^verbatim>\<open>setHours(0, 0, 0, 0)\<close> computes it, before
  clipping. It is in order when it lies in the range of \<^verbatim>\<open>Date\<close> and the local midnight
  exists, that is, reads back as midnight: a zone that moves its clocks forward at midnight
  skips it.
\<close>

definition dayStart :: "zone \<Rightarrow> int \<Rightarrow> int" where
  "dayStart z t = UTC z (Day (LocalTime z t) * msPerDay)"

definition midnightInOrder :: "zone \<Rightarrow> int \<Rightarrow> bool" where
  "midnightInOrder z t =
     (\<bar>dayStart z t\<bar> \<le> 8640000000000000 \<and>
      LocalTime z (dayStart z t) = Day (LocalTime z t) * msPerDay)"

text \<open>
  In a regular zone the local days follow one another in time, and the start of a day as
  \<open>dayStart\<close> computes it is the first instant of that local day. UTC is regular, and
  so is a zone that moves its clocks forward at midnight (\<open>regular_utc\<close>,
  \<open>regular_skip\<close>).
\<close>

definition regularZone :: "zone \<Rightarrow> bool" where
  "regularZone z =
     ((\<forall>t u. t \<le> u \<longrightarrow> Day (LocalTime z t) \<le> Day (LocalTime z u)) \<and>
      (\<forall>t. Day (LocalTime z (dayStart z t)) = Day (LocalTime z t)) \<and>
      (\<forall>t u. Day (LocalTime z u) = Day (LocalTime z t) \<longrightarrow> dayStart z t \<le> u))"

text \<open>The name of a note gives no date: neither the configured format nor the legacy one matches.\<close>

definition noNameDate :: "env \<Rightarrow> tfile \<Rightarrow> bool" where
  "noNameDate e file =
     (momentParse e (basename file) (js_or (filenameFormat e) (js ''YYYY-MM'')) = None \<and>
      js_match False legacyPattern (basename file) = None)"

section \<open>Values for the examples\<close>

text \<open>
  Two zones: UTC itself, and a zone one hour ahead of UTC from the start of day 20161
  (14 March 2025) on, whose clocks go from 00:00 to 01:00 at that instant.
\<close>

definition utcZone :: zone where
  "utcZone = \<lparr>offsetAtUTC = (\<lambda>t. 0), offsetAtLocal = (\<lambda>t. 0)\<rparr>"

definition skipZone :: zone where
  "skipZone =
     \<lparr>offsetAtUTC = (\<lambda>t. if t < 20161 * msPerDay then 0 else 3600000),
      offsetAtLocal = (\<lambda>t. if t < 20161 * msPerDay + 3600000 then 0 else 3600000)\<rparr>"

text \<open>
  A vault with the single note \<open>n.md\<close>, unlocked; a host without the Tasks plugin, whose
  commands all fail; a host whose Tasks plugin returns \<^verbatim>\<open>undefined\<close> from its toggle
  command and has neither \<^verbatim>\<open>toggleTask\<close> nor a listing; a task of the listing with no
  date of its own; settings with no folder restriction and a clock five milliseconds into
  day 20200, in either zone.
\<close>

definition noteVault :: "jsstring \<Rightarrow> vault" where
  "noteVault content =
     \<lparr>files = (\<lambda>p. if p = js ''n.md'' then Some content else None), locked = (\<lambda>p. False)\<rparr>"

definition bareHost :: host where
  "bareHost = \<lparr>tasksPluginApi = None, openFile = (\<lambda>p. Inl ApiError),
      executeCommandById = (\<lambda>c v. Inl ApiError)\<rparr>"

definition undefinedApi :: tasksApi where
  "undefinedApi =
     \<lparr>executeToggleTaskDoneCommand = Some (\<lambda>l p. Inr (JOther [])),
      toggleTask = None, getTasks = None, getAllTasks = None, cache = None\<rparr>"

definition undefinedHost :: host where
  "undefinedHost =
     \<lparr>tasksPluginApi = Some undefinedApi,
      openFile = (\<lambda>p. Inr True),
      executeCommandById = (\<lambda>c v. Inl ApiError)\<rparr>"

definition undatedApiTask :: apiTask where
  "undatedApiTask =
     \<lparr>api_path = js ''n.md'', api_line = 0, api_dueDate = [], api_startDate = [],
      api_scheduledDate = [], api_text = js ''Call '' @ calendarEmoji, api_status = js '' '',
      api_toggle = None, api_toggleDone = None, api_setCompletionStatus = None\<rparr>"

definition plainEnv :: "zone \<Rightarrow> env" where
  "plainEnv z = \<lparr>calendarFolderPath = [], tasksFolderPath = [], filenameFormat = [],
      newDateOf = isoNewDate, momentParse = (\<lambda>name format. None),
      currentTime = 20200 * msPerDay + 5, timeZone = z\<rparr>"

text \<open>A task for the examples: dated at the start of day number \<open>day\<close> in UTC.\<close>

definition mkTask :: "jsstring \<Rightarrow> int \<Rightarrow> jsstring \<Rightarrow> nat \<Rightarrow> bool \<Rightarrow> task" where
  "mkTask txt day p l c = \<lparr>task_text = txt, task_date = Some (DateAt (day * msPerDay)),
     task_file = \<lparr>path = p, basename = p\<rparr>, task_line = l, isCompleted = c\<rparr>"

section \<open>Facts about strings\<close>

lemma digits_nonempty: "digits n \<noteq> []"
  by (induction n rule: digits.induct) (subst digits.simps, simp)

lemma digits_range: "c \<in> set (digits n) \<Longrightarrow> 48 \<le> c \<and> c \<le> 57"
proof (induction n rule: digits.induct)
  case (1 n)
  show ?case
  proof (cases "n < 10")
    case True
    with "1.prems" show ?thesis by (subst (asm) digits.simps) simp
  next
    case False
    with "1.prems" have "c \<in> set (digits (n div 10)) \<or> c = 48 + n mod 10"
      by (subst (asm) digits.simps) auto
    then show ?thesis
    proof
      assume "c \<in> set (digits (n div 10))"
      with False "1.IH" show ?thesis by simp
    next
      assume "c = 48 + n mod 10"
      moreover have "n mod 10 < 10" by simp
      ultimately show ?thesis by linarith
    qed
  qed
qed

text \<open>Reading the digits back gives the number, so \<open>digits\<close> is injective.\<close>

lemma undigits_digits: "undigits (digits n) = n"
proof (induction n rule: digits.induct)
  case (1 n)
  show ?case
  proof (cases "n < 10")
    case True
    then show ?thesis by (subst digits.simps) (simp add: undigits_def)
  next
    case False
    with "1.IH" have ih: "undigits (digits (n div 10)) = n div 10" by simp
    have "undigits (digits n) = 10 * undigits (digits (n div 10)) + n mod 10"
      using False by (subst digits.simps) (simp add: undigits_def)
    with ih show ?thesis by simp
  qed
qed

lemma digits_inject: "digits a = digits b \<Longrightarrow> a = b"
  by (metis undigits_digits)

lemma split_at_first:
  "c \<notin> set a \<Longrightarrow> c \<notin> set b \<Longrightarrow> a @ c # x = b @ c # y \<Longrightarrow> a = b \<and> x = y"
proof (induction a arbitrary: b)
  case Nil
  then show ?case by (cases b) auto
next
  case (Cons h a)
  then show ?case by (cases b) auto
qed

lemma split_at_last:
  assumes "xs @ c # ds = ys @ c # es" and "c \<notin> set ds" and "c \<notin> set es"
  shows "xs = ys \<and> ds = es"
proof -
  have "rev (xs @ c # ds) = rev (ys @ c # es)" using assms(1) by simp
  then have "rev ds @ c # rev xs = rev es @ c # rev ys" by simp
  moreover have "c \<notin> set (rev ds)" "c \<notin> set (rev es)" using assms by simp_all
  ultimately have "rev ds = rev es \<and> rev xs = rev ys"
    by (rule split_at_first [rotated 2])
  then show ?thesis by simp
qed

lemma taskKey_inject: "taskKey u = taskKey t \<longleftrightarrow> samePlace t u"
proof
  assume eq: "taskKey u = taskKey t"
  have "58 \<notin> set (digits (task_line u))" "58 \<notin> set (digits (task_line t))"
    using digits_range by fastforce+
  with eq have "path (task_file u) = path (task_file t) \<and> digits (task_line u) = digits (task_line t)"
    unfolding taskKey_def js_def by (intro split_at_last [where c = 58]) simp_all
  then show "samePlace t u" by (auto simp: samePlace_def dest: digits_inject)
next
  assume "samePlace t u"
  then show "taskKey u = taskKey t" by (simp add: taskKey_def samePlace_def)
qed

section \<open>Facts about the deduplication\<close>

lemma dedup_loop_keyed: "keyed m \<Longrightarrow> keyed (dedup_loop ts m)"
proof (induction ts arbitrary: m)
  case Nil
  then show ?case by simp
next
  case (Cons t ts)
  have "keyed (if \<not> map_has m (taskKey t) then m @ [(taskKey t, t)] else m)"
    using Cons.prems by (auto simp: keyed_def map_has_def)
  then show ?case using Cons.IH by simp
qed

lemma dedup_loop_map_of:
  "map_of (dedup_loop ts m) k =
     (case map_of m k of Some v \<Rightarrow> Some v | None \<Rightarrow> find (\<lambda>u. taskKey u = k) ts)"
proof (induction ts arbitrary: m)
  case Nil
  then show ?case by (simp split: option.splits)
next
  case (Cons t ts)
  show ?case
  proof (cases "map_has m (taskKey t)")
    case True
    then have "map_of m (taskKey t) \<noteq> None"
      by (simp add: map_has_def map_of_eq_None_iff)
    with True Cons.IH [of m] show ?thesis by (auto split: option.splits)
  next
    case False
    then have none: "map_of m (taskKey t) = None"
      by (simp add: map_has_def map_of_eq_None_iff)
    have "map_of (m @ [(taskKey t, t)]) k =
        (case map_of m k of Some v \<Rightarrow> Some v | None \<Rightarrow> if taskKey t = k then Some t else None)"
      by (simp add: map_add_def split: option.splits)
    with False none Cons.IH [of "m @ [(taskKey t, t)]"] show ?thesis
      by (auto split: option.splits)
  qed
qed

lemma keyed_filter_find:
  assumes "keyed m"
  shows "filter (\<lambda>u. taskKey u = k) (map snd m) = (case map_of m k of Some v \<Rightarrow> [v] | None \<Rightarrow> [])"
  using assms
proof (induction m)
  case Nil
  then show ?case by simp
next
  case (Cons p m)
  obtain k' v where p: "p = (k', v)" by (cases p)
  from Cons.prems p have kv: "k' = taskKey v" and dist: "k' \<notin> fst ` set m" and km: "keyed m"
    by (auto simp: keyed_def)
  show ?case
  proof (cases "k' = k")
    case True
    with dist have "map_of m k = None" by (simp add: map_of_eq_None_iff)
    with Cons.IH [OF km] True p kv show ?thesis by simp
  next
    case False
    with Cons.IH [OF km] p kv show ?thesis by simp
  qed
qed

lemma keyed_find:
  assumes "keyed m"
  shows "find (\<lambda>u. taskKey u = k) (map snd m) = map_of m k"
  using assms
proof (induction m)
  case Nil
  then show ?case by simp
next
  case (Cons p m)
  obtain k' v where p: "p = (k', v)" by (cases p)
  from Cons.prems p have kv: "k' = taskKey v" and km: "keyed m"
    by (auto simp: keyed_def)
  with Cons.IH [OF km] p show ?case by auto
qed

lemma loadTasks_finish_subset: "set (loadTasks_finish raw) \<subseteq> set (filter hasCalendarEmoji raw)"
proof -
  have "keyed m \<Longrightarrow> set (map snd m) \<subseteq> set ts' \<Longrightarrow>
      set (map snd (dedup_loop ts m)) \<subseteq> set ts' \<union> set ts" for ts ts' m
  proof (induction ts arbitrary: m ts')
    case Nil
    then show ?case by simp
  next
    case (Cons t ts)
    let ?m = "if \<not> map_has m (taskKey t) then m @ [(taskKey t, t)] else m"
    have k: "keyed ?m" using Cons.prems(1) by (auto simp: keyed_def map_has_def)
    have s: "set (map snd ?m) \<subseteq> set (t # ts')" using Cons.prems(2) by auto
    from Cons.IH [OF k s] show ?case by auto
  qed
  from this [of "[]" "[]" "filter hasCalendarEmoji raw"] show ?thesis
    by (simp add: loadTasks_finish_def keyed_def)
qed

section \<open>Claims about aggregation\<close>

text \<open>
  Claim C4. Every task of the aggregated list carries the calendar emoji in its text, and
  a raw task whose text lacks it is not in the aggregated list. The raw list is arbitrary,
  so this holds whichever discovery strategy filled it.
\<close>

theorem loadTasks_only_calendar_tasks:
  "(\<forall>t \<in> set (loadTasks_finish raw). str_includes (task_text t) calendarEmoji) \<and>
   (\<forall>t \<in> set raw. \<not> str_includes (task_text t) calendarEmoji \<longrightarrow> t \<notin> set (loadTasks_finish raw))"
  using loadTasks_finish_subset [of raw] by (auto simp: hasCalendarEmoji_def)

theorem loadTasks_only_calendar_tasks_witness:
  "loadTasks_finish [mkTask (js ''a '' @ calendarEmoji) 3 (js ''n.md'') 0 False,
                     mkTask (js ''b'') 3 (js ''n.md'') 1 False]
   = [mkTask (js ''a '' @ calendarEmoji) 3 (js ''n.md'') 0 False]"
  using loadTasks_only_calendar_tasks [of "[mkTask (js ''a '' @ calendarEmoji) 3 (js ''n.md'') 0 False,
                     mkTask (js ''b'') 3 (js ''n.md'') 1 False]"]
  by (simp add: loadTasks_finish_def hasCalendarEmoji_def mkTask_def js_def calendarEmoji_def
      taskKey_def map_has_def digits.simps)

text \<open>
  Claim C5. For every task that the deduplication loop receives (a raw task that passed
  the emoji filter in front of the loop), the aggregated list holds exactly one task with
  the same (file path, line) pair, and it is the first task with that pair in the order in
  which the loop received them. When every raw task carries the emoji, as the tasks of
  both discovery strategies do, that is the first task with that pair in the raw list.
\<close>

theorem loadTasks_dedup_first:
  assumes "t \<in> set raw" and "hasCalendarEmoji t"
  shows "length (filter (samePlace t) (loadTasks_finish raw)) = 1 \<and>
         find (samePlace t) (loadTasks_finish raw) = find (samePlace t) (filter hasCalendarEmoji raw) \<and>
         (list_all hasCalendarEmoji raw \<longrightarrow>
            find (samePlace t) (loadTasks_finish raw) = find (samePlace t) raw)"
proof -
  let ?ts = "filter hasCalendarEmoji raw"
  let ?m = "dedup_loop ?ts []"
  have same: "samePlace t = (\<lambda>u. taskKey u = taskKey t)"
    by (rule ext) (simp add: taskKey_inject)
  have k: "keyed ?m" by (rule dedup_loop_keyed) (simp add: keyed_def)
  have mo: "map_of ?m (taskKey t) = find (\<lambda>u. taskKey u = taskKey t) ?ts"
    by (simp add: dedup_loop_map_of)
  from assms have "t \<in> set ?ts" by simp
  then have "find (\<lambda>u. taskKey u = taskKey t) ?ts \<noteq> None"
    by (auto simp: find_None_iff)
  then obtain v where v: "find (\<lambda>u. taskKey u = taskKey t) ?ts = Some v" by auto
  have "filter (\<lambda>u. taskKey u = taskKey t) (map snd ?m) = [v]"
    using keyed_filter_find [OF k, of "taskKey t"] mo v by simp
  moreover have "find (\<lambda>u. taskKey u = taskKey t) (map snd ?m) = Some v"
    using keyed_find [OF k, of "taskKey t"] mo v by simp
  ultimately have "length (filter (samePlace t) (loadTasks_finish raw)) = 1"
    and f: "find (samePlace t) (loadTasks_finish raw) = find (samePlace t) ?ts"
    unfolding loadTasks_finish_def same using v by simp_all
  moreover have "list_all hasCalendarEmoji raw \<Longrightarrow> ?ts = raw"
    by (simp add: list_all_iff)
  ultimately show ?thesis by auto
qed

theorem loadTasks_dedup_first_witness:
  "length (filter (samePlace (mkTask (js ''b '' @ calendarEmoji) 3 (js ''n.md'') 12 True))
     (loadTasks_finish [mkTask (js ''a '' @ calendarEmoji) 3 (js ''n.md'') 12 False,
                        mkTask (js ''b '' @ calendarEmoji) 3 (js ''n.md'') 12 True])) = 1
   \<and> find (samePlace (mkTask (js ''b '' @ calendarEmoji) 3 (js ''n.md'') 12 True))
     (loadTasks_finish [mkTask (js ''a '' @ calendarEmoji) 3 (js ''n.md'') 12 False,
                        mkTask (js ''b '' @ calendarEmoji) 3 (js ''n.md'') 12 True])
     = Some (mkTask (js ''a '' @ calendarEmoji) 3 (js ''n.md'') 12 False)"
  using loadTasks_dedup_first [of "mkTask (js ''b '' @ calendarEmoji) 3 (js ''n.md'') 12 True"
     "[mkTask (js ''a '' @ calendarEmoji) 3 (js ''n.md'') 12 False,
       mkTask (js ''b '' @ calendarEmoji) 3 (js ''n.md'') 12 True]"]
  by (simp add: hasCalendarEmoji_def mkTask_def js_def calendarEmoji_def samePlace_def)

section \<open>Facts about the civil calendar\<close>


lemma monthFromDay_range: "0 \<le> monthFromDay d \<and> monthFromDay d \<le> 11"
  by (simp add: monthFromDay_def Let_def)

lemma div_bounds:
  fixes x k :: int
  assumes "0 < k"
  shows "k * (x div k) \<le> x" and "x < k * (x div k) + k"
proof -
  have "k * (x div k) = x - x mod k" by (simp add: minus_mod_eq_mult_div)
  moreover have "0 \<le> x mod k" "x mod k < k" using assms by simp_all
  ultimately show "k * (x div k) \<le> x" and "x < k * (x div k) + k" by linarith+
qed

lemma estimate_aux:
  fixes y a b c :: int
  assumes "4 * a \<le> y - 1969" "y - 1969 < 4 * a + 4"
    and "100 * b \<le> y - 1901" "y - 1901 < 100 * b + 100"
    and "400 * c \<le> y - 1601" "y - 1601 < 400 * c + 400"
  shows "146097 * (y - 1970) - 506 \<le> 400 * (365 * (y - 1970) + a - b + c)"
    and "400 * (365 * (y - 1970) + a - b + c) \<le> 146097 * (y - 1970) + 589"
proof -
  show "146097 * (y - 1970) - 506 \<le> 400 * (365 * (y - 1970) + a - b + c)"
    using assms by (simp add: algebra_simps)
  show "400 * (365 * (y - 1970) + a - b + c) \<le> 146097 * (y - 1970) + 589"
    using assms by (simp add: algebra_simps)
qed

lemma dayFromYear_estimate:
  "146097 * (y - 1970) - 506 \<le> 400 * dayFromYear y"
  "400 * dayFromYear y \<le> 146097 * (y - 1970) + 589"
  unfolding dayFromYear_def
  by (rule estimate_aux; rule div_bounds; simp)+

lemma yearFromDay_aux:
  fixes d y q :: int
  assumes "146097 * q \<le> d * 400" "d * 400 < 146097 * q + 146097" "y = 1970 + q"
    and "400 * l \<le> 146097 * (y - 1 - 1970) + 589"
    and "146097 * (y + 2 - 1970) - 506 \<le> 400 * h"
  shows "l \<le> d" and "d < h"
proof -
  show "l \<le> d" using assms by (simp add: algebra_simps)
  show "d < h" using assms by (simp add: algebra_simps)
qed

lemma yearFromDay_bounds:
  "dayFromYear (yearFromDay d) \<le> d \<and> d < dayFromYear (yearFromDay d + 1)"
proof -
  define y where "y = 1970 + (d * 400) div 146097"
  have q: "146097 * ((d * 400) div 146097) \<le> d * 400"
    "d * 400 < 146097 * ((d * 400) div 146097) + 146097"
    by (rule div_bounds, simp)+
  have lo: "dayFromYear (y - 1) \<le> d"
    by (rule yearFromDay_aux(1) [OF q y_def dayFromYear_estimate(2) dayFromYear_estimate(1)])
  have hi: "d < dayFromYear (y + 2)"
    by (rule yearFromDay_aux(2) [OF q y_def dayFromYear_estimate(2) dayFromYear_estimate(1)])
  have e: "y + 1 + 1 = y + 2" "y - 1 + 1 = y" by simp_all
  show ?thesis
    using lo hi unfolding yearFromDay_def y_def [symmetric] Let_def
    by (auto simp: e)
qed

lemma div_succ:
  fixes z k :: int
  assumes "0 < k"
  shows "(z + 1) div k = z div k + (if k dvd z + 1 then 1 else 0)"
proof -
  have z: "z = k * (z div k) + z mod k" by simp
  have r: "0 \<le> z mod k" "z mod k < k" using assms by simp_all
  show ?thesis
  proof (cases "z mod k + 1 = k")
    case True
    have "z + 1 = k * (z div k) + (z mod k + 1)" using z by linarith
    also have "\<dots> = k * (z div k + 1)" unfolding True by (simp add: algebra_simps)
    finally have e: "z + 1 = k * (z div k + 1)" .
    have "k dvd z + 1" unfolding e by simp
    moreover have "(z + 1) div k = z div k + 1" unfolding e using assms by simp
    ultimately show ?thesis by simp
  next
    case False
    with r have lt: "z mod k + 1 < k" by linarith
    have e: "z + 1 = k * (z div k) + (z mod k + 1)" using z by linarith
    have d: "(z + 1) div k = z div k"
      by (rule int_div_pos_eq [OF e]) (use r lt in simp_all)
    have m: "(z + 1) mod k = z mod k + 1"
      by (rule int_mod_pos_eq [OF e]) (use r lt in simp_all)
    from m r have "\<not> k dvd z + 1" by (simp add: dvd_eq_mod_eq_0)
    with d show ?thesis by simp
  qed
qed

lemma dayFromYear_alt:
  "dayFromYear y = 365 * (y - 1970) + (y - 1) div 4 - (y - 1) div 100 + (y - 1) div 400 - 477"
proof -
  have a: "(y - 1969) div 4 = (y - 1) div 4 - 492"
    using div_mult_self2 [of 4 "y - 1" "- 492"] by simp
  have b: "(y - 1901) div 100 = (y - 1) div 100 - 19"
    using div_mult_self2 [of 100 "y - 1" "- 19"] by simp
  have c: "(y - 1601) div 400 = (y - 1) div 400 - 4"
    using div_mult_self2 [of 400 "y - 1" "- 4"] by simp
  show ?thesis unfolding dayFromYear_def a b c by simp
qed

lemma dayFromYear_step:
  "dayFromYear (y + 1) = dayFromYear y + (if inLeapYear y then 366 else 365)"
proof -
  have s: "y div 4 = (y - 1) div 4 + (if 4 dvd y then 1 else 0)"
    "y div 100 = (y - 1) div 100 + (if 100 dvd y then 1 else 0)"
    "y div 400 = (y - 1) div 400 + (if 400 dvd y then 1 else 0)"
    using div_succ [of 4 "y - 1"] div_succ [of 100 "y - 1"] div_succ [of 400 "y - 1"] by simp_all
  have tr: "400 dvd y \<Longrightarrow> 100 dvd y" "100 dvd y \<Longrightarrow> 4 dvd y"
    by (erule dvd_trans [rotated], simp)+
  have l: "inLeapYear y \<longleftrightarrow> 4 dvd y \<and> (\<not> 100 dvd y \<or> 400 dvd y)"
    by (simp add: inLeapYear_def dvd_eq_mod_eq_0)
  have e: "dayFromYear (y + 1) = 365 * (y - 1969) + y div 4 - y div 100 + y div 400 - 477"
    using dayFromYear_alt [of "y + 1"] by simp
  consider (common) "\<not> 4 dvd y" "\<not> 100 dvd y" "\<not> 400 dvd y"
    | (leap) "4 dvd y" "\<not> 100 dvd y" "\<not> 400 dvd y"
    | (century) "4 dvd y" "100 dvd y" "\<not> 400 dvd y"
    | (fourth) "4 dvd y" "100 dvd y" "400 dvd y"
    using tr by blast
  then show ?thesis
  proof cases
    case common
    then show ?thesis unfolding e dayFromYear_alt [of y] s l by simp
  next
    case leap
    then show ?thesis unfolding e dayFromYear_alt [of y] s l by simp
  next
    case century
    then show ?thesis unfolding e dayFromYear_alt [of y] s l by simp
  next
    case fourth
    then show ?thesis unfolding e dayFromYear_alt [of y] s l by simp
  qed
qed

lemma dayFromYear_mono: "a \<le> b \<Longrightarrow> dayFromYear a \<le> dayFromYear b"
proof (induction b rule: int_ge_induct)
  case base
  show ?case by simp
next
  case (step i)
  then show ?case using dayFromYear_step [of i] by (simp split: if_splits)
qed

lemma yearFromDay_unique:
  assumes "dayFromYear y \<le> d" and "d < dayFromYear (y + 1)"
  shows "yearFromDay d = y"
proof (rule ccontr)
  assume ne: "yearFromDay d \<noteq> y"
  let ?Y = "yearFromDay d"
  from yearFromDay_bounds [of d] have b: "dayFromYear ?Y \<le> d" "d < dayFromYear (?Y + 1)" by simp_all
  from ne consider "?Y + 1 \<le> y" | "y + 1 \<le> ?Y" by linarith
  then show False
  proof cases
    case 1
    from dayFromYear_mono [OF 1] assms b show False by linarith
  next
    case 2
    from dayFromYear_mono [OF 2] assms b show False by linarith
  qed
qed

lemma monthStart_bounds:
  assumes "0 \<le> m" and "m \<le> 11"
  shows "0 \<le> monthStart l m \<and> monthStart l m < (if l then 366 else 365)"
  using assms by (auto simp: monthStart_def)

lemma month_start_day:
  assumes "0 \<le> m" and "m \<le> 11"
  shows "yearFromDay (dayFromYear y + monthStart (inLeapYear y) m) = y"
    and "monthFromDay (dayFromYear y + monthStart (inLeapYear y) m) = m"
proof -
  show y: "yearFromDay (dayFromYear y + monthStart (inLeapYear y) m) = y"
    using monthStart_bounds [OF assms, of "inLeapYear y"] dayFromYear_step [of y]
    by (intro yearFromDay_unique) (auto split: if_splits)
  from assms have "m = 0 \<or> m = 1 \<or> m = 2 \<or> m = 3 \<or> m = 4 \<or> m = 5 \<or> m = 6 \<or> m = 7 \<or> m = 8 \<or>
      m = 9 \<or> m = 10 \<or> m = 11" by presburger
  then show "monthFromDay (dayFromYear y + monthStart (inLeapYear y) m) = m"
    unfolding monthFromDay_def y Let_def
    by (elim disjE) (simp_all add: monthStart_def)
qed

text \<open>Moving a date by whole days with \<^verbatim>\<open>setDate(getDate() + k)\<close>, in any zone.\<close>

lemma makeDay_DateFromTime:
  "makeDay (YearFromTime l) (MonthFromTime l) (DateFromTime l + k) = Day l + k"
proof -
  have "MonthFromTime l div 12 = 0" "MonthFromTime l mod 12 = MonthFromTime l"
    using monthFromDay_range [of "Day l"] by (simp_all add: MonthFromTime_def)
  then show ?thesis
    by (simp add: makeDay_def DateFromTime_def YearFromTime_def MonthFromTime_def Let_def)
qed

lemma setDate_shift:
  "setDate z (DateAt t) (num_plus (numberOf (getDate z) (DateAt t)) (Some k))
     = TimeClip (UTC z (LocalTime z t + k * msPerDay))"
proof -
  let ?l = "LocalTime z t"
  have "(Day ?l + k) * msPerDay + TimeWithinDay ?l = ?l + k * msPerDay"
    by (simp add: Day_def TimeWithinDay_def algebra_simps)
  then show ?thesis
    by (simp add: num_plus_def numberOf_def getDate_def makeDay_DateFromTime Let_def)
qed

lemma setDate_back:
  "setDate z (DateAt t) (num_minus (numberOf (getDate z) (DateAt t)) (Some k))
     = TimeClip (UTC z (LocalTime z t - k * msPerDay))"
proof -
  let ?l = "LocalTime z t"
  have "makeDay (YearFromTime ?l) (MonthFromTime ?l) (DateFromTime ?l - k) = Day ?l - k"
    using makeDay_DateFromTime [of ?l "- k"] by simp
  moreover have "(Day ?l - k) * msPerDay + TimeWithinDay ?l = ?l - k * msPerDay"
    by (simp add: Day_def TimeWithinDay_def algebra_simps)
  ultimately show ?thesis
    by (simp add: num_minus_def numberOf_def getDate_def Let_def)
qed

section \<open>Facts about the zones\<close>

text \<open>Both example zones are regular: UTC, and the zone that skips a midnight.\<close>

lemma utc_simps [simp]: "LocalTime utcZone t = t" "UTC utcZone t = t"
  by (simp_all add: LocalTime_def UTC_def utcZone_def)


lemmas utc_eval = TimeClip_def Day_def utcZone_def LocalTime_def UTC_def msPerDay_def

lemma Day_iff: "Day x = n \<longleftrightarrow> 86400000 * n \<le> x \<and> x < 86400000 * n + 86400000"
proof
  assume "Day x = n"
  then have n: "n = x div 86400000" by (simp add: Day_def msPerDay_def)
  have "86400000 * (x div 86400000) = x - x mod 86400000" by (simp add: minus_mod_eq_mult_div)
  moreover have "0 \<le> x mod 86400000" "x mod 86400000 < 86400000" by simp_all
  ultimately show "86400000 * n \<le> x \<and> x < 86400000 * n + 86400000" unfolding n by linarith
next
  assume a: "86400000 * n \<le> x \<and> x < 86400000 * n + 86400000"
  have "x div 86400000 = n"
    by (rule int_div_pos_eq [where r = "x - 86400000 * n"]) (use a in simp_all)
  then show "Day x = n" by (simp add: Day_def msPerDay_def)
qed

lemma skip_LocalTime: "LocalTime skipZone t = (if t < 1741910400000 then t else t + 3600000)"
  by (simp add: LocalTime_def skipZone_def msPerDay_def)

lemma skip_dayStart:
  "dayStart skipZone t =
     (if 86400000 * Day (LocalTime skipZone t) < 1741914000000
      then 86400000 * Day (LocalTime skipZone t)
      else 86400000 * Day (LocalTime skipZone t) - 3600000)"
  by (simp add: dayStart_def UTC_def skipZone_def msPerDay_def mult.commute)


lemma skip_same:
  "Day (LocalTime skipZone (if 86400000 * n < 1741914000000 then 86400000 * n else 86400000 * n - 3600000)) = n"
proof -
  consider "n \<le> 20160" | "n = 20161" | "20162 \<le> n" by linarith
  then show ?thesis
    unfolding Day_iff skip_LocalTime by cases simp_all
qed

lemma skip_first:
  assumes "Day (LocalTime skipZone u) = n"
  shows "(if 86400000 * n < 1741914000000 then 86400000 * n else 86400000 * n - 3600000) \<le> u"
proof -
  from assms have b: "86400000 * n \<le> LocalTime skipZone u"
    "LocalTime skipZone u < 86400000 * n + 86400000"
    by (simp_all add: Day_iff)
  consider "n \<le> 20160" | "n = 20161" | "20162 \<le> n" by linarith
  then show ?thesis
  proof cases
    case 1
    with b show ?thesis unfolding skip_LocalTime by (simp split: if_splits)
  next
    case 2
    with b show ?thesis unfolding skip_LocalTime by (simp split: if_splits)
  next
    case 3
    with b show ?thesis unfolding skip_LocalTime by (simp split: if_splits)
  qed
qed

lemma regular_skip: "regularZone skipZone"
proof -
  have mono: "Day (LocalTime skipZone t) \<le> Day (LocalTime skipZone u)" if "t \<le> u" for t u
  proof -
    from that have "LocalTime skipZone t \<le> LocalTime skipZone u" by (simp add: skip_LocalTime)
    then show ?thesis by (simp only: Day_def msPerDay_def zdiv_mono1 zero_less_numeral)
  qed
  have same: "Day (LocalTime skipZone (dayStart skipZone t)) = Day (LocalTime skipZone t)" for t
    by (simp only: skip_dayStart skip_same)
  have first: "dayStart skipZone t \<le> u" if "Day (LocalTime skipZone u) = Day (LocalTime skipZone t)" for t u
    unfolding skip_dayStart by (rule skip_first [OF that])
  show ?thesis unfolding regularZone_def using mono same first by blast
qed

section \<open>The grid of a month in the years 0 to 99\<close>

text \<open>
  The values of the calendar for 15 June of the year 50, which is day -701100, and for
  June 1950: 1 June 1950 is day -7154, a Thursday, and the Monday before it is day -7157.
\<close>

lemma utc_day: "Day (k * msPerDay) = k" "Day (- (k * msPerDay)) = - k"
  by (simp_all add: Day_def msPerDay_def)

lemma dayFromYear_50: "dayFromYear 50 = - 701265" "dayFromYear 51 = - 700900"
  by (simp_all add: dayFromYear_def)

lemma dayFromYear_1950: "dayFromYear 1950 = - 7305" "dayFromYear 1951 = - 6940"
  by (simp_all add: dayFromYear_def)

lemma june_50:
  "yearFromDay (- 701100) = 50" "monthFromDay (- 701100) = 5"
  "yearFromDay (- 701114) = 50" "monthFromDay (- 701114) = 5"
proof -
  show y: "yearFromDay (- 701100) = 50" "yearFromDay (- 701114) = 50"
    by (simp_all add: yearFromDay_def dayFromYear_def)
  show "monthFromDay (- 701100) = 5" "monthFromDay (- 701114) = 5"
    by (simp_all add: monthFromDay_def y dayFromYear_50 inLeapYear_def monthStart_def)
qed

lemma june_1950:
  "yearFromDay (- 7154) = 1950" "monthFromDay (- 7154) = 5" "yearFromDay (- 7157) = 1950"
proof -
  show y: "yearFromDay (- 7154) = 1950" "yearFromDay (- 7157) = 1950"
    by (simp_all add: yearFromDay_def dayFromYear_def)
  show "monthFromDay (- 7154) = 5"
    by (simp add: monthFromDay_def y dayFromYear_1950 inLeapYear_def monthStart_def)
qed

lemma year50_firstDay:
  "firstDay utcZone (- 701100 * msPerDay) = DateAt (- 7154 * msPerDay)"
proof -
  have "makeDay 1950 5 1 = - 7154"
    by (simp add: makeDay_def dayFromYear_1950 inLeapYear_def monthStart_def)
  moreover have "getFullYear utcZone (- 701100 * msPerDay) = 50" "getMonth utcZone (- 701100 * msPerDay) = 5"
    by (simp_all add: getFullYear_def getMonth_def YearFromTime_def MonthFromTime_def utc_day june_50)
  ultimately have "firstDay utcZone (- 701100 * msPerDay) = TimeClip (- 7154 * msPerDay)"
    by (simp add: firstDay_def newDate3_def)
  then show ?thesis by (simp add: TimeClip_def msPerDay_def)
qed

lemma year50_startDate:
  "startDate utcZone (- 701100 * msPerDay) = DateAt (- 7157 * msPerDay)"
proof -
  have d: "daysToSubtract utcZone (- 701100 * msPerDay) = Some 3"
    unfolding daysToSubtract_def year50_firstDay
    by (simp add: numberOf_def getDay_def WeekDay_def utc_day)
  show ?thesis
    unfolding startDate_def year50_firstDay d Let_def setDate_back
    by (simp add: TimeClip_def msPerDay_def)
qed

lemma year50_cells:
  "gridCells utcZone (- 701100 * msPerDay) = map (\<lambda>i. DateAt ((int i - 7157) * msPerDay)) [0..<42]"
proof -
  have "setDate utcZone (DateAt (- 7157 * msPerDay))
          (num_plus (numberOf (getDate utcZone) (DateAt (- 7157 * msPerDay))) (Some (int i)))
        = DateAt ((int i - 7157) * msPerDay)" if "i < 42" for i
    unfolding setDate_shift using that by (simp add: TimeClip_def msPerDay_def)
  then show ?thesis
    unfolding gridCells_def year50_startDate by (simp del: upt_Suc)
qed

text \<open>
  Claim C3 does not hold of the code for a current date in a year from 0 to 99. With the
  current date on 15 June of the year 50 (in UTC), the year and the month that the view
  reads are 50 and 5, and the 1st of that month is day -701114; but
  \<^verbatim>\<open>new Date(50, 5, 1)\<close> is 1 June 1950. The grid has its 42 cells and starts on a
  Monday, but that Monday is 29 May 1950: the first cell is after the 1st of the month that
  is shown, and the 1st of that month is at no cell of the grid.
\<close>

theorem grid_of_year_50:
  "getFullYear utcZone (- 701100 * msPerDay) = 50 \<and>
   getMonth utcZone (- 701100 * msPerDay) = 5 \<and>
   getFullYear utcZone (- 701114 * msPerDay) = 50 \<and>
   getMonth utcZone (- 701114 * msPerDay) = 5 \<and>
   getDate utcZone (- 701114 * msPerDay) = 1 \<and>
   firstDay utcZone (- 701100 * msPerDay) = DateAt (- 7154 * msPerDay) \<and>
   getFullYear utcZone (- 7154 * msPerDay) = 1950 \<and>
   length (gridCells utcZone (- 701100 * msPerDay)) = 42 \<and>
   gridCells utcZone (- 701100 * msPerDay) ! 0 = DateAt (- 7157 * msPerDay) \<and>
   getDay utcZone (- 7157 * msPerDay) = 1 \<and>
   \<not> date_ge (DateAt (- 701114 * msPerDay)) (gridCells utcZone (- 701100 * msPerDay) ! 0) \<and>
   DateAt (- 701114 * msPerDay) \<notin> set (gridCells utcZone (- 701100 * msPerDay))"
proof -
  have t: "getFullYear utcZone (- 701100 * msPerDay) = 50 \<and> getMonth utcZone (- 701100 * msPerDay) = 5"
    by (simp add: getFullYear_def getMonth_def YearFromTime_def MonthFromTime_def utc_day june_50)
  have a: "getFullYear utcZone (- 701114 * msPerDay) = 50 \<and>
     getMonth utcZone (- 701114 * msPerDay) = 5 \<and> getDate utcZone (- 701114 * msPerDay) = 1"
    by (simp add: getFullYear_def getMonth_def getDate_def YearFromTime_def MonthFromTime_def
        DateFromTime_def utc_day june_50 dayFromYear_50 inLeapYear_def monthStart_def)
  have b: "getFullYear utcZone (- 7154 * msPerDay) = 1950 \<and> getDay utcZone (- 7157 * msPerDay) = 1"
    by (simp add: getFullYear_def getDay_def YearFromTime_def WeekDay_def utc_day june_1950)
  have c: "gridCells utcZone (- 701100 * msPerDay) ! 0 = DateAt (- 7157 * msPerDay)"
    unfolding year50_cells by (simp add: nth_map del: upt_Suc)
  have d: "DateAt (- 701114 * msPerDay) \<notin> set (gridCells utcZone (- 701100 * msPerDay))"
    unfolding year50_cells by (auto simp: msPerDay_def)
  have e: "\<not> date_ge (DateAt (- 701114 * msPerDay)) (gridCells utcZone (- 701100 * msPerDay) ! 0)"
    unfolding c by (simp add: msPerDay_def)
  have l: "length (gridCells utcZone (- 701100 * msPerDay)) = 42"
    by (simp add: gridCells_def)
  from t year50_firstDay a b c d e l show ?thesis by blast
qed

section \<open>Claims about the cells\<close>








text \<open>
  Claim C8, amended. A cell draws at most 4 tasks, the first 4 of its sorted list, and it
  shows the count badge, with the length of the whole list, exactly when the list is not
  empty (not only when it holds more than 4 tasks).
\<close>

theorem cell_badge:
  "length (drawn (renderCell z now sc tasks c)) \<le> 4 \<and>
   drawn (renderCell z now sc tasks c) = take 4 (sortedDayTasks (renderCell z now sc tasks c)) \<and>
   (sortedDayTasks (renderCell z now sc tasks c) \<noteq> [] \<longrightarrow>
      taskCountSpan (renderCell z now sc tasks c)
        = Some (js '' +'' @ digits (length (sortedDayTasks (renderCell z now sc tasks c))))) \<and>
   (sortedDayTasks (renderCell z now sc tasks c) = [] \<longrightarrow> taskCountSpan (renderCell z now sc tasks c) = None)"
  by (simp add: renderCell_def Let_def)

theorem cell_badge_witness:
  "drawn (renderCell utcZone (5 * msPerDay) True
       [mkTask (js ''a'') 5 (js ''n.md'') 0 False, mkTask (js ''b'') 5 (js ''n.md'') 1 True,
        mkTask (js ''c'') 5 (js ''n.md'') 2 False, mkTask (js ''d'') 5 (js ''n.md'') 3 False,
        mkTask (js ''e'') 5 (js ''n.md'') 4 False] (DateAt (5 * msPerDay)))
     = [mkTask (js ''a'') 5 (js ''n.md'') 0 False, mkTask (js ''c'') 5 (js ''n.md'') 2 False,
        mkTask (js ''d'') 5 (js ''n.md'') 3 False, mkTask (js ''e'') 5 (js ''n.md'') 4 False]
   \<and> taskCountSpan (renderCell utcZone (5 * msPerDay) True
       [mkTask (js ''a'') 5 (js ''n.md'') 0 False, mkTask (js ''b'') 5 (js ''n.md'') 1 True,
        mkTask (js ''c'') 5 (js ''n.md'') 2 False, mkTask (js ''d'') 5 (js ''n.md'') 3 False,
        mkTask (js ''e'') 5 (js ''n.md'') 4 False] (DateAt (5 * msPerDay)))
     = Some (js '' +5'')"
  using cell_badge [of utcZone "5 * msPerDay" True
       "[mkTask (js ''a'') 5 (js ''n.md'') 0 False, mkTask (js ''b'') 5 (js ''n.md'') 1 True,
        mkTask (js ''c'') 5 (js ''n.md'') 2 False, mkTask (js ''d'') 5 (js ''n.md'') 3 False,
        mkTask (js ''e'') 5 (js ''n.md'') 4 False]" "DateAt (5 * msPerDay)"]
  by (simp add: renderCell_def getTasksForDate_def getOverdueTasks_def mkTask_def utc_eval Let_def js_def digits.simps)

text \<open>The claim as stated fails for a cell with one task: the badge is shown.\<close>

theorem badge_with_one_task:
  "length (sortedDayTasks (renderCell utcZone (5 * msPerDay) True [mkTask (js ''a'') 5 (js ''n.md'') 0 False]
      (DateAt (5 * msPerDay)))) = 1
   \<and> taskCountSpan (renderCell utcZone (5 * msPerDay) True [mkTask (js ''a'') 5 (js ''n.md'') 0 False]
      (DateAt (5 * msPerDay)))
     = Some (js '' +1'')"
  by (simp add: renderCell_def getTasksForDate_def getOverdueTasks_def mkTask_def utc_eval Let_def js_def digits.simps)

section \<open>Facts about the matcher\<close>

lemma consume_simps [simp]:
  "rx_pos (consume w st) = rx_pos st + length w"
  "rx_open (consume w st) = rx_open st"
  "rx_groups (consume w st) n =
     (if n \<in> set (rx_open st) then map_option (\<lambda>g. g @ w) (rx_groups st n) else rx_groups st n)"
  by (simp_all add: consume_def)

lemma try_down_None: "try_down f lo hi = None \<longleftrightarrow> (\<forall>k. lo \<le> k \<and> k \<le> hi \<longrightarrow> f k = None)"
proof (induction hi)
  case 0
  then show ?case by auto
next
  case (Suc hi)
  show ?case
  proof (cases "Suc hi < lo")
    case True
    then show ?thesis by auto
  next
    case False
    then have lo: "lo \<le> Suc hi" by simp
    show ?thesis
    proof (cases "f (Suc hi)")
      case (Some r)
      with lo have "\<not> (\<forall>k. lo \<le> k \<and> k \<le> Suc hi \<longrightarrow> f k = None)"
        by (metis order_refl option.distinct(1))
      with Some False show ?thesis by simp
    next
      case None
      have "(\<forall>k. lo \<le> k \<and> k \<le> Suc hi \<longrightarrow> f k = None) \<longleftrightarrow> (\<forall>k. lo \<le> k \<and> k \<le> hi \<longrightarrow> f k = None)"
        using None by (auto simp: le_Suc_eq)
      with None False Suc.IH show ?thesis by simp
    qed
  qed
qed

lemma try_down_top: "lo \<le> hi \<Longrightarrow> f hi = Some r \<Longrightarrow> try_down f lo hi = Some r"
  by (cases hi) auto

lemma try_down_skip: "f (Suc hi) = None \<Longrightarrow> try_down f lo (Suc hi) = try_down f lo hi"
proof (cases "Suc hi < lo")
  case True
  have "try_down f lo hi = None"
    unfolding try_down_None
  proof (intro allI impI)
    fix k
    assume "lo \<le> k \<and> k \<le> hi"
    with True show "f k = None" by linarith
  qed
  with True show ?thesis by simp
next
  case False
  assume "f (Suc hi) = None"
  with False show ?thesis by simp
qed

lemma try_down_last:
  assumes "\<And>k. lo \<le> k \<Longrightarrow> k < hi \<Longrightarrow> f k = None"
  shows "try_down f lo hi = (if lo \<le> hi then f hi else None)"
proof (cases "lo \<le> hi")
  case False
  then have "try_down f lo hi = None" unfolding try_down_None by auto
  with False show ?thesis by simp
next
  case True
  show ?thesis
  proof (cases "f hi")
    case None
    with assms have "\<forall>k. lo \<le> k \<and> k \<le> hi \<longrightarrow> f k = None"
      by (metis le_neq_implies_less)
    with None True show ?thesis by (simp add: try_down_None)
  next
    case (Some r)
    with True show ?thesis by (simp add: try_down_top)
  qed
qed

lemma drop_in_run:
  "k < length (takeWhile P s) \<Longrightarrow> \<exists>c cs. drop k s = c # cs \<and> P c"
proof -
  assume k: "k < length (takeWhile P s)"
  then have ks: "k < length s" using length_takeWhile_le [of P s] by simp
  have "P (s ! k)" using k by (metis nth_mem set_takeWhileD takeWhile_nth)
  moreover have "drop k s = s ! k # drop (Suc k) s" using ks by (simp add: Cons_nth_drop_Suc)
  ultimately show ?thesis by blast
qed

lemma take_run: "take (length (takeWhile P s)) s = takeWhile P s"
  by (metis append_eq_conv_conj takeWhile_dropWhile_id)

lemma drop_run: "drop (length (takeWhile P s)) s = dropWhile P s"
  by (metis append_eq_conv_conj takeWhile_dropWhile_id)

lemma rx_at_Rep_barrier:
  assumes "\<And>c cs st'. P c \<Longrightarrow> rx_at ic as (c # cs) st' = None"
  shows "rx_at ic (Rep P lo None # as) s st =
     (if lo \<le> length (takeWhile P s)
      then rx_at ic as (dropWhile P s) (consume (takeWhile P s) st) else None)"
proof -
  let ?f = "\<lambda>k. rx_at ic as (drop k s) (consume (take k s) st)"
  have "?f k = None" if "k < length (takeWhile P s)" for k
    using drop_in_run [OF that] assms by auto
  then have "try_down ?f lo (length (takeWhile P s)) =
      (if lo \<le> length (takeWhile P s) then ?f (length (takeWhile P s)) else None)"
    by (intro try_down_last) simp
  then show ?thesis by (simp add: run_length_def take_run drop_run)
qed

lemma rx_search_Bol: "rx_search ic (Bol # as) (Suc i) s = None"
  by (induction s arbitrary: i) (simp_all add: rx_init_def)

lemma rx_search_anchored: "rx_search ic (Bol # as) 0 s = rx_at ic as s (rx_init 0)"
  by (cases s) (simp_all add: rx_init_def rx_search_Bol split: option.splits)

lemma run_all: "list_all P s \<Longrightarrow> length (takeWhile P s) = length s"
  by (induction s) auto

lemma run_short: "\<not> list_all P s \<Longrightarrow> length (takeWhile P s) < length s"
  by (induction s) auto

lemma rx_at_text_tail:
  "rx_at ic text_tail s st = (if s \<noteq> [] \<and> list_all isDot s then Some (text_final s st) else None)"
proof -
  let ?st = "st\<lparr>rx_open := 3 # rx_open st, rx_groups := (rx_groups st)(3 := Some [])\<rparr>"
  let ?f = "\<lambda>k. rx_at ic [Close 3, Eol] (drop k s) (consume (take k s) ?st)"
  let ?n = "length (takeWhile isDot s)"
  have unfold: "rx_at ic text_tail s st = try_down ?f 1 ?n"
    by (simp add: text_tail_def run_length_def)
  show ?thesis
  proof (cases "list_all isDot s")
    case True
    then have n: "?n = length s" by (rule run_all)
    show ?thesis
    proof (cases "s = []")
      case True
      then show ?thesis unfolding unfold by simp
    next
      case False
      then have "1 \<le> length s" by (cases s) simp_all
      moreover have "?f (length s) = Some (text_final s st)"
        by (simp add: text_final_def)
      ultimately have "try_down ?f 1 (length s) = Some (text_final s st)"
        by (rule try_down_top)
      with True False show ?thesis unfolding unfold n by simp
    qed
  next
    case False
    then have "?n < length s" by (rule run_short)
    then have "\<forall>k. 1 \<le> k \<and> k \<le> ?n \<longrightarrow> ?f k = None" by simp
    then have "try_down ?f 1 ?n = None" by (simp only: try_down_None)
    with False show ?thesis unfolding unfold by simp
  qed
qed

lemma list_all_drop_suffix:
  "\<not> list_all P (dropWhile Q s) \<Longrightarrow> k \<le> length (takeWhile Q s) \<Longrightarrow> \<not> list_all P (drop k s)"
proof -
  assume a: "\<not> list_all P (dropWhile Q s)" and k: "k \<le> length (takeWhile Q s)"
  have "drop k s = drop k (takeWhile Q s) @ dropWhile Q s"
    using k by (metis drop_append takeWhile_dropWhile_id diff_is_0_eq drop0)
  with a show ?thesis by simp
qed

lemma rx_at_ws_text:
  "rx_at ic (Rep isWhiteSpace 1 None # text_tail) s st =
     (if dropWhile isWhiteSpace s \<noteq> []
      then (if takeWhile isWhiteSpace s \<noteq> [] \<and> list_all isDot (dropWhile isWhiteSpace s)
            then Some (text_final (dropWhile isWhiteSpace s) (consume (takeWhile isWhiteSpace s) st))
            else None)
      else (if 2 \<le> length s \<and> isDot (last s)
            then Some (text_final [last s] (consume (butlast s) st))
            else None))"
proof -
  let ?W = "takeWhile isWhiteSpace s"
  let ?R = "dropWhile isWhiteSpace s"
  let ?n = "length ?W"
  let ?f = "\<lambda>k. rx_at ic text_tail (drop k s) (consume (take k s) st)"
  have unfold: "rx_at ic (Rep isWhiteSpace 1 None # text_tail) s st = try_down ?f 1 ?n"
    by (simp add: run_length_def)
  have f: "?f k = (if drop k s \<noteq> [] \<and> list_all isDot (drop k s)
                   then Some (text_final (drop k s) (consume (take k s) st)) else None)" for k
    by (rule rx_at_text_tail)
  show ?thesis
  proof (cases "?R = []")
    case False
    show ?thesis
    proof (cases "list_all isDot ?R")
      case True
      have fn: "?f ?n = Some (text_final ?R (consume ?W st))"
        unfolding f using True False by (simp add: take_run drop_run)
      show ?thesis
      proof (cases "?W = []")
        case True
        then show ?thesis unfolding unfold using False by simp
      next
        case W: False
        then have "1 \<le> ?n" by (cases ?W) simp_all
        then have "try_down ?f 1 ?n = Some (text_final ?R (consume ?W st))"
          using fn by (rule try_down_top)
        then show ?thesis
          unfolding unfold using True False W by simp
      qed
    next
      case nd: False
      have "\<forall>k. 1 \<le> k \<and> k \<le> ?n \<longrightarrow> ?f k = None"
        unfolding f using list_all_drop_suffix [OF nd] by simp
      then have "try_down ?f 1 ?n = None" by (simp only: try_down_None)
      with nd False show ?thesis unfolding unfold by simp
    qed
  next
    case Rnil: True
    then have sW: "?W = s" by (metis append_Nil2 takeWhile_dropWhile_id)
    have n: "?n = length s" by (subst sW) (rule refl)
    show ?thesis
    proof (cases s)
      case Nil
      then show ?thesis unfolding unfold by simp
    next
      case (Cons c cs)
      then obtain m where m: "length s = Suc m" by simp
      have "?f (Suc m) = None" unfolding f using m by simp
      then have skip: "try_down ?f 1 (Suc m) = try_down ?f 1 m" by (rule try_down_skip)
      have sne: "s \<noteq> []" using Cons by simp
      have dm: "drop m s = [last s]" and tm: "take m s = butlast s"
        using m sne by (metis append_butlast_last_id append_eq_conv_conj length_butlast diff_Suc_1)+
      show ?thesis
      proof (cases "isDot (last s)")
        case dot: True
        have fm: "?f m = Some (text_final [last s] (consume (butlast s) st))"
          unfolding f using dot by (simp add: dm tm)
        show ?thesis
        proof (cases "1 \<le> m")
          case True
          then have "try_down ?f 1 m = Some (text_final [last s] (consume (butlast s) st))"
            using fm by (rule try_down_top)
          then show ?thesis
            unfolding unfold n m skip using True Rnil dot m by simp
        next
          case False
          then have "m = 0" by simp
          then show ?thesis unfolding unfold n m skip using Rnil m by simp
        qed
      next
        case nodot: False
        have "\<forall>k. 1 \<le> k \<and> k \<le> m \<longrightarrow> ?f k = None"
        proof (intro allI impI)
          fix k
          assume "1 \<le> k \<and> k \<le> m"
          then have "k < length s" using m by simp
          then have "last s \<in> set (drop k s)"
            by (metis drop_eq_Nil last_drop last_in_set not_le)
          with nodot have "\<not> list_all isDot (drop k s)" by (auto simp: list_all_iff)
          then show "?f k = None" unfolding f by simp
        qed
        then have "try_down ?f 1 m = None" by (simp only: try_down_None)
        with nodot Rnil show ?thesis unfolding unfold n m skip by simp
      qed
    qed
  qed
qed

section \<open>What the checklist pattern matches\<close>

lemma rx_at_Cls: "rx_at ic (Cls P # as) s st =
    (case s of [] \<Rightarrow> None | c # cs \<Rightarrow> if P c then rx_at ic as cs (consume [c] st) else None)"
  by simp

lemma rx_at_Open: "rx_at ic (Open n # as) s st =
    rx_at ic as s (st\<lparr>rx_open := n # rx_open st, rx_groups := (rx_groups st)(n := Some [])\<rparr>)"
  by simp

lemma rx_at_Close: "rx_at ic (Close n # as) s st = rx_at ic as s (st\<lparr>rx_open := removeAll n (rx_open st)\<rparr>)"
  by simp

lemma ws_not_bullet: "isWhiteSpace c \<Longrightarrow> \<not> isBullet c"
  by (auto simp: isWhiteSpace_def isBullet_def)

lemma ws_not_bracket: "isWhiteSpace c \<Longrightarrow> c \<noteq> 91"
  by (auto simp: isWhiteSpace_def)

lemma taskLinePattern_eq: "taskLinePattern = Bol # Open 1 # Rep isWhiteSpace 0 None # line_tail1"
  by (simp add: taskLinePattern_def line_tail1_def line_tail2_def text_tail_def)

lemma barrier1: "rx_at ic (Rep isWhiteSpace 0 None # line_tail1) s st =
    rx_at ic line_tail1 (dropWhile isWhiteSpace s) (consume (takeWhile isWhiteSpace s) st)"
proof -
  have "rx_at ic line_tail1 (c # cs) st' = None" if "isWhiteSpace c" for c cs st'
    using ws_not_bullet [OF that] by (simp add: line_tail1_def)
  from rx_at_Rep_barrier [of isWhiteSpace ic line_tail1 0 s st, OF this] show ?thesis by simp
qed

lemma barrier2: "rx_at ic (Rep isWhiteSpace 1 None # line_tail2) s st =
    (if takeWhile isWhiteSpace s \<noteq> []
     then rx_at ic line_tail2 (dropWhile isWhiteSpace s) (consume (takeWhile isWhiteSpace s) st)
     else None)"
proof -
  have "rx_at ic line_tail2 (c # cs) st' = None" if "isWhiteSpace c" for c cs st'
    using ws_not_bracket [OF that] by (simp add: line_tail2_def)
  from rx_at_Rep_barrier [of isWhiteSpace ic line_tail2 1 s st, OF this] show ?thesis
    by (cases "takeWhile isWhiteSpace s") simp_all
qed

lemma groups_text:
  assumes "rx_open st = []"
  shows "map_option rx_groups (rx_at ic (Rep isWhiteSpace 1 None # text_tail) s st) =
         map_option (\<lambda>t. (rx_groups st)(3 := Some t)) (parseText s)"
proof -
  have "rx_groups (text_final t (consume w st)) = (rx_groups st)(3 := Some t)" for t w
    using assms by (auto simp: text_final_def fun_eq_iff)
  then show ?thesis
    unfolding rx_at_ws_text parseText_def by simp
qed

lemma groups_box:
  assumes "rx_open st = []"
  shows "map_option rx_groups (rx_at ic line_tail2 s st) =
         map_option (\<lambda>(m, t). (rx_groups st)(2 := Some [m], 3 := Some t)) (parseBox s)"
proof (cases "\<exists>m r. s = 91 # m # 93 # r \<and> isMarker m")
  case False
  then have "rx_at ic line_tail2 s st = None"
    unfolding line_tail2_def rx_at_Cls rx_at_Open rx_at_Close by (auto split: list.splits)
  moreover have "parseBox s = None"
    using False by (auto simp: parseBox_def split: list.splits)
  ultimately show ?thesis by simp
next
  case True
  then obtain m r where s: "s = 91 # m # 93 # r" and m: "isMarker m" by blast
  let ?st = "consume [93] ((consume [m] ((consume [91] st)\<lparr>rx_open := [2],
       rx_groups := (rx_groups (consume [91] st))(2 := Some [])\<rparr>))\<lparr>rx_open := []\<rparr>)"
  have "rx_at ic line_tail2 s st = rx_at ic (Rep isWhiteSpace 1 None # text_tail) r ?st"
    unfolding line_tail2_def rx_at_Cls rx_at_Open rx_at_Close using s m assms by simp
  moreover have o: "rx_open ?st = []" by simp
  moreover have "rx_groups ?st = (rx_groups st)(2 := Some [m])"
    using assms by (auto simp: fun_eq_iff)
  ultimately have "map_option rx_groups (rx_at ic line_tail2 s st) =
      map_option (\<lambda>t. (rx_groups st)(2 := Some [m], 3 := Some t)) (parseText r)"
    using groups_text [OF o, of ic r] by simp
  then show ?thesis using s m by (simp add: parseBox_def option.map_comp comp_def)
qed

lemma groups_bullet:
  assumes "rx_open st = [1]" and "rx_groups st 1 = Some w"
  shows "map_option rx_groups (rx_at ic line_tail1 s st) =
         map_option (\<lambda>(b, m, t). (rx_groups st)(1 := Some (w @ [b]), 2 := Some [m], 3 := Some t))
           (parseBullet s)"
proof (cases s)
  case Nil
  then show ?thesis by (simp add: line_tail1_def parseBullet_def)
next
  case (Cons b r)
  show ?thesis
  proof (cases "isBullet b \<and> takeWhile isWhiteSpace r \<noteq> []")
    case False
    then have "rx_at ic line_tail1 s st = None"
      unfolding line_tail1_def rx_at_Cls rx_at_Close barrier2 using Cons by auto
    moreover have "parseBullet s = None" using False Cons by (auto simp: parseBullet_def)
    ultimately show ?thesis by simp
  next
    case True
    let ?st = "consume (takeWhile isWhiteSpace r) ((consume [b] st)\<lparr>rx_open := []\<rparr>)"
    have "rx_at ic line_tail1 s st = rx_at ic line_tail2 (dropWhile isWhiteSpace r) ?st"
      unfolding line_tail1_def rx_at_Cls rx_at_Close barrier2 using Cons True assms by simp
    moreover have o: "rx_open ?st = []" by simp
    moreover have "rx_groups ?st = (rx_groups st)(1 := Some (w @ [b]))"
      using assms by (auto simp: fun_eq_iff)
    ultimately have "map_option rx_groups (rx_at ic line_tail1 s st) =
        map_option (\<lambda>(m, t). (rx_groups st)(1 := Some (w @ [b]), 2 := Some [m], 3 := Some t))
          (parseBox (dropWhile isWhiteSpace r))"
      using groups_box [OF o, of ic "dropWhile isWhiteSpace r"] by simp
    then show ?thesis
      using Cons True by (simp add: parseBullet_def option.map_comp comp_def split_def)
  qed
qed

lemma taskLine_match_parse:
  "js_match False taskLinePattern line =
   map_option (\<lambda>(i, m, t). (\<lambda>n. None)(1 := Some i, 2 := Some [m], 3 := Some t)) (parseTaskLine line)"
proof -
  let ?st = "consume (takeWhile isWhiteSpace line)
      ((rx_init 0)\<lparr>rx_open := [1], rx_groups := (\<lambda>n. None)(1 := Some [])\<rparr>)"
  have "js_match False taskLinePattern line =
      map_option rx_groups (rx_at False (Open 1 # Rep isWhiteSpace 0 None # line_tail1) line (rx_init 0))"
    by (simp only: js_match_def taskLinePattern_eq rx_search_anchored)
  also have "rx_at False (Open 1 # Rep isWhiteSpace 0 None # line_tail1) line (rx_init 0) =
      rx_at False line_tail1 (dropWhile isWhiteSpace line) ?st"
    by (simp only: rx_at_Open barrier1) (simp add: rx_init_def)
  finally have m: "js_match False taskLinePattern line =
      map_option rx_groups (rx_at False line_tail1 (dropWhile isWhiteSpace line) ?st)" .
  have o: "rx_open ?st = [1]" by simp
  have g: "rx_groups ?st 1 = Some (takeWhile isWhiteSpace line)" by simp
  have gs: "(rx_groups ?st)(1 := Some i, 2 := Some [mm], 3 := Some t)
      = (\<lambda>n. None)(1 := Some i, 2 := Some [mm], 3 := Some t)" for i mm t
    by (auto simp: fun_eq_iff rx_init_def)
  show ?thesis
    unfolding m groups_bullet [OF o g] parseTaskLine_def
  proof (cases "parseBullet (dropWhile isWhiteSpace line)")
    case None
    then show "map_option (\<lambda>(b, m, t). (rx_groups ?st)(1 := Some (takeWhile isWhiteSpace line @ [b]),
          2 := Some [m], 3 := Some t)) (parseBullet (dropWhile isWhiteSpace line)) =
        map_option (\<lambda>(i, m, t). (\<lambda>n. None)(1 := Some i, 2 := Some [m], 3 := Some t))
          (map_option (\<lambda>(b, m, t). (takeWhile isWhiteSpace line @ [b], m, t))
            (parseBullet (dropWhile isWhiteSpace line)))"
      by simp
  next
    case (Some p)
    obtain b mm t where p: "p = (b, mm, t)" by (cases p)
    show "map_option (\<lambda>(b, m, t). (rx_groups ?st)(1 := Some (takeWhile isWhiteSpace line @ [b]),
          2 := Some [m], 3 := Some t)) (parseBullet (dropWhile isWhiteSpace line)) =
        map_option (\<lambda>(i, m, t). (\<lambda>n. None)(1 := Some i, 2 := Some [m], 3 := Some t))
          (map_option (\<lambda>(b, m, t). (takeWhile isWhiteSpace line @ [b], m, t))
            (parseBullet (dropWhile isWhiteSpace line)))"
      using gs [of "takeWhile isWhiteSpace line @ [b]" mm t] by (simp add: Some p)
  qed
qed

section \<open>Facts about the direct toggle\<close>

lemma split_nl_nonempty: "split_nl s \<noteq> []"
  by (induction s) (auto split: list.splits)

lemma split_nl_no_nl: "l \<in> set (split_nl s) \<Longrightarrow> 10 \<notin> set l"
proof (induction s arbitrary: l)
  case Nil
  then show ?case by simp
next
  case (Cons c cs)
  show ?case
  proof (cases "c = 10")
    case True
    with Cons show ?thesis by auto
  next
    case False
    obtain h t where ht: "split_nl cs = h # t"
      using split_nl_nonempty [of cs] by (cases "split_nl cs") auto
    with False Cons.prems have "l = c # h \<or> l \<in> set t" by auto
    then show ?thesis
    proof
      assume "l = c # h"
      moreover have "10 \<notin> set h" using Cons.IH [of h] ht by simp
      ultimately show ?thesis using False by auto
    next
      assume "l \<in> set t"
      then show ?thesis using Cons.IH [of l] ht by simp
    qed
  qed
qed

lemma split_join: "ls \<noteq> [] \<Longrightarrow> \<forall>l \<in> set ls. 10 \<notin> set l \<Longrightarrow> split_nl (join_nl ls) = ls"
proof (induction ls rule: join_nl.induct)
  case 1
  then show ?case by simp
next
  case (2 l)
  then have "10 \<notin> set l" by simp
  then have "split_nl l = [l]"
    by (induction l) (auto split: list.splits)
  then show ?case by simp
next
  case (3 l m ls)
  then have ih: "split_nl (join_nl (m # ls)) = m # ls" by simp
  from 3 have "10 \<notin> set l" by simp
  then have "split_nl (l @ 10 # r) = l # split_nl r" for r
    by (induction l) (auto split: list.splits simp: split_nl_nonempty)
  with ih show ?case by simp
qed

lemma parseText_shape:
  assumes "parseText s = Some t"
  shows "list_all isDot t \<and> t \<noteq> [] \<and> (\<not> isWhiteSpace (hd t) \<or> (\<exists>c. t = [c]))"
proof (cases "dropWhile isWhiteSpace s = []")
  case True
  with assms show ?thesis by (auto simp: parseText_def split: if_splits)
next
  case False
  then have "\<not> isWhiteSpace (hd (dropWhile isWhiteSpace s))" by (rule hd_dropWhile)
  with assms False show ?thesis by (auto simp: parseText_def split: if_splits)
qed

lemma parseText_after_space:
  assumes "parseText s = Some t"
  shows "parseText (32 # t) = Some t"
proof -
  from parseText_shape [OF assms] have d: "list_all isDot t" and ne: "t \<noteq> []"
    and sh: "\<not> isWhiteSpace (hd t) \<or> (\<exists>c. t = [c])" by auto
  have ws: "isWhiteSpace 32" by (simp add: isWhiteSpace_def)
  show ?thesis
  proof (cases "isWhiteSpace (hd t)")
    case False
    with ne have "takeWhile isWhiteSpace t = []" "dropWhile isWhiteSpace t = t"
      by (cases t; simp)+
    with ws d ne show ?thesis by (simp add: parseText_def)
  next
    case True
    with sh obtain c where c: "t = [c]" by auto
    with True d ws show ?thesis by (simp add: parseText_def)
  qed
qed

text \<open>What the pattern recognises in a line it matches.\<close>

lemma parseTaskLine_shape:
  assumes "parseTaskLine line = Some (indent, cur, txt)"
  shows "\<exists>w0 b ws1 ws2.
           line = w0 @ [b] @ ws1 @ [91, cur, 93] @ ws2 @ txt \<and> indent = w0 @ [b] \<and>
           list_all isWhiteSpace w0 \<and> isBullet b \<and> ws1 \<noteq> [] \<and> list_all isWhiteSpace ws1 \<and>
           isMarker cur \<and> ws2 \<noteq> [] \<and> list_all isWhiteSpace ws2 \<and> txt \<noteq> [] \<and> list_all isDot txt"
proof -
  let ?w0 = "takeWhile isWhiteSpace line"
  from assms obtain b where pb: "parseBullet (dropWhile isWhiteSpace line) = Some (b, cur, txt)"
    and ind: "indent = ?w0 @ [b]"
    by (auto simp: parseTaskLine_def)
  from pb obtain r1 where r1: "dropWhile isWhiteSpace line = b # r1" and b: "isBullet b"
    and w1: "takeWhile isWhiteSpace r1 \<noteq> []"
    and px: "parseBox (dropWhile isWhiteSpace r1) = Some (cur, txt)"
    by (auto simp: parseBullet_def split: list.splits if_splits)
  from px obtain r3 where r3: "dropWhile isWhiteSpace r1 = 91 # cur # 93 # r3" and m: "isMarker cur"
    and pt: "parseText r3 = Some txt"
    by (auto simp: parseBox_def split: list.splits if_splits)
  have "\<exists>ws2. r3 = ws2 @ txt \<and> ws2 \<noteq> [] \<and> list_all isWhiteSpace ws2 \<and> txt \<noteq> [] \<and> list_all isDot txt"
  proof (cases "dropWhile isWhiteSpace r3 = []")
    case False
    with pt have t: "txt = dropWhile isWhiteSpace r3" and w: "takeWhile isWhiteSpace r3 \<noteq> []"
      and d: "list_all isDot txt"
      by (auto simp: parseText_def split: if_splits)
    have "r3 = takeWhile isWhiteSpace r3 @ txt" by (simp add: t)
    moreover have "list_all isWhiteSpace (takeWhile isWhiteSpace r3)"
      by (auto simp: list_all_iff dest: set_takeWhileD)
    ultimately show ?thesis using w d False t by blast
  next
    case True
    with pt have t: "txt = [last r3]" and l: "2 \<le> length r3" and d: "isDot (last r3)"
      by (auto simp: parseText_def split: if_splits)
    from True have all: "list_all isWhiteSpace r3" by (simp add: list_all_iff)
    from l have ne: "r3 \<noteq> []" by auto
    then have "r3 = butlast r3 @ txt" by (simp add: t)
    moreover have "butlast r3 \<noteq> []" using l by (cases r3) auto
    moreover have "list_all isWhiteSpace (butlast r3)"
      using all by (auto simp: list_all_iff dest: in_set_butlastD)
    ultimately show ?thesis using d t by auto
  qed
  then obtain ws2 where ws2: "r3 = ws2 @ txt" "ws2 \<noteq> []" "list_all isWhiteSpace ws2" "txt \<noteq> []"
    "list_all isDot txt" by blast
  have "line = ?w0 @ dropWhile isWhiteSpace line" by simp
  also have "\<dots> = ?w0 @ b # takeWhile isWhiteSpace r1 @ dropWhile isWhiteSpace r1"
    by (simp add: r1)
  finally have "line = ?w0 @ [b] @ takeWhile isWhiteSpace r1 @ [91, cur, 93] @ ws2 @ txt"
    by (simp add: r3 ws2(1))
  moreover have "list_all isWhiteSpace ?w0" "list_all isWhiteSpace (takeWhile isWhiteSpace r1)"
    by (auto simp: list_all_iff dest: set_takeWhileD)
  ultimately show ?thesis using ind b w1 m ws2 by blast
qed

text \<open>The rewritten line matches again, with the same indent and text and the new marker.\<close>

lemma parseTaskLine_rewritten:
  assumes "parseTaskLine line = Some (indent, cur, txt)" and "isMarker new"
  shows "parseTaskLine (indent @ [32, 91, new, 93, 32] @ txt) = Some (indent, new, txt)"
proof -
  let ?w0 = "takeWhile isWhiteSpace line"
  from assms obtain b where pb: "parseBullet (dropWhile isWhiteSpace line) = Some (b, cur, txt)"
    and ind: "indent = ?w0 @ [b]"
    by (auto simp: parseTaskLine_def)
  from pb obtain r1 where b: "isBullet b"
    and px: "parseBox (dropWhile isWhiteSpace r1) = Some (cur, txt)"
    by (auto simp: parseBullet_def split: list.splits if_splits)
  from px obtain r3 where pt: "parseText r3 = Some txt"
    by (auto simp: parseBox_def split: list.splits if_splits)
  have nb: "\<not> isWhiteSpace b" using b ws_not_bullet by blast
  have ws: "isWhiteSpace 32" "\<not> isWhiteSpace 91" by (simp_all add: isWhiteSpace_def)
  have all: "\<forall>c \<in> set ?w0. isWhiteSpace c" by (auto dest: set_takeWhileD)
  let ?rest = "[32, 91, new, 93, 32] @ txt"
  have tw: "takeWhile isWhiteSpace (?w0 @ b # ?rest) = ?w0"
    using all nb by (simp add: takeWhile_append2)
  have dw: "dropWhile isWhiteSpace (?w0 @ b # ?rest) = b # ?rest"
    using all nb by (simp add: dropWhile_append2)
  have "parseBullet (b # ?rest) = Some (b, new, txt)"
    using b ws assms(2) parseText_after_space [OF pt]
    by (simp add: parseBullet_def parseBox_def)
  then have "parseTaskLine (?w0 @ b # ?rest) = Some (?w0 @ [b], new, txt)"
    unfolding parseTaskLine_def tw dw by simp
  then show ?thesis by (simp add: ind)
qed

lemma toggle_direct_parse:
  "toggleTaskCompletionDirect v task =
     (case files v (path (task_file task)) of
        None \<Rightarrow> (False, task, v)
      | Some content \<Rightarrow>
          if length (split_nl content) \<le> task_line task then (False, task, v)
          else case parseTaskLine (split_nl content ! task_line task) of
                 None \<Rightarrow> (False, task, v)
               | Some (indent, cur, txt) \<Rightarrow>
                   if locked v (path (task_file task)) then (False, task, v)
                   else (True, task\<lparr>isCompleted := (cur = 32)\<rparr>,
                         v\<lparr>files := (files v)(path (task_file task) :=
                             Some (join_nl ((split_nl content)[task_line task :=
                                indent @ [32, 91, if cur = 32 then 120 else 32, 93, 32] @ txt])))\<rparr>))"
  by (auto simp: toggleTaskCompletionDirect_def vault_read_def vault_modify_def Let_def
      taskLine_match_parse group_text_def js_def split: option.splits)

section \<open>Claims about the direct toggle\<close>

lemma toggle_direct_success:
  assumes "toggleTaskCompletionDirect v task = (True, task1, v1)"
  shows "\<exists>content indent cur tx.
           files v (path (task_file task)) = Some content \<and>
           task_line task < length (split_nl content) \<and>
           parseTaskLine (split_nl content ! task_line task) = Some (indent, cur, tx) \<and>
           \<not> locked v (path (task_file task)) \<and>
           task1 = task\<lparr>isCompleted := (cur = 32)\<rparr> \<and>
           v1 = v\<lparr>files := (files v)(path (task_file task) :=
                  Some (join_nl ((split_nl content)[task_line task :=
                     indent @ [32, 91, if cur = 32 then 120 else 32, 93, 32] @ tx])))\<rparr>"
proof (cases "files v (path (task_file task))")
  case None
  with assms show ?thesis unfolding toggle_direct_parse by simp
next
  case (Some content)
  show ?thesis
  proof (cases "length (split_nl content) \<le> task_line task")
    case True
    with Some assms show ?thesis unfolding toggle_direct_parse by simp
  next
    case False
    show ?thesis
    proof (cases "parseTaskLine (split_nl content ! task_line task)")
      case None
      with Some False assms show ?thesis unfolding toggle_direct_parse by simp
    next
      case p: (Some r)
      obtain indent cur tx where r: "r = (indent, cur, tx)" by (cases r)
      show ?thesis
      proof (cases "locked v (path (task_file task))")
        case True
        with Some False p r assms show ?thesis unfolding toggle_direct_parse by simp
      next
        case nl: False
        from Some False p r nl assms
        have "task1 = task\<lparr>isCompleted := (cur = 32)\<rparr>"
          and "v1 = v\<lparr>files := (files v)(path (task_file task) :=
                  Some (join_nl ((split_nl content)[task_line task :=
                     indent @ [32, 91, if cur = 32 then 120 else 32, 93, 32] @ tx])))\<rparr>"
          unfolding toggle_direct_parse by simp_all
        with Some False p r nl show ?thesis by (intro exI [of _ content] exI [of _ indent] exI [of _ cur] exI [of _ tx]) simp
      qed
    qed
  qed
qed

lemma rewritten_lines:
  assumes "i < length (split_nl content)"
    and "parseTaskLine (split_nl content ! i) = Some (indent, cur, tx)"
    and "new \<noteq> 10"
  shows "split_nl (join_nl ((split_nl content)[i := indent @ [32, 91, new, 93, 32] @ tx])) =
         (split_nl content)[i := indent @ [32, 91, new, 93, 32] @ tx]"
proof (rule split_join)
  show "(split_nl content)[i := indent @ [32, 91, new, 93, 32] @ tx] \<noteq> []"
    by (simp add: split_nl_nonempty)
  have line: "10 \<notin> set (split_nl content ! i)"
    using assms(1) split_nl_no_nl [of "split_nl content ! i" content] by simp
  from parseTaskLine_shape [OF assms(2)] obtain w0 b ws1 ws2 where
    "split_nl content ! i = w0 @ [b] @ ws1 @ [91, cur, 93] @ ws2 @ tx" "indent = w0 @ [b]"
    by blast
  with line have "10 \<notin> set indent" "10 \<notin> set tx" by auto
  with assms(3) have "10 \<notin> set (indent @ [32, 91, new, 93, 32] @ tx)" by simp
  then show "\<forall>l\<in>set ((split_nl content)[i := indent @ [32, 91, new, 93, 32] @ tx]). 10 \<notin> set l"
    using split_nl_no_nl [of _ content] by (auto dest!: set_update_subset_insert [THEN subsetD])
qed

text \<open>
  Claim C10. On a line that matches the checklist pattern (in a note that can be
  written), the direct toggle writes the line back as the first group (indent and bullet),
  one space, the new marker in brackets, one space, and the third group (the task text),
  where the new marker is a blank when the current marker is \<^verbatim>\<open>x\<close>, \<^verbatim>\<open>X\<close>, U+2713
  or U+2705 and \<^verbatim>\<open>x\<close> when it is a blank. The groups are parts of the line as it was:
  only the white space around the brackets and the marker change. The other lines stay.
\<close>

theorem direct_toggle_rewrites_line:
  assumes "files v (path (task_file task)) = Some content"
    and "task_line task < length (split_nl content)"
    and "js_match False taskLinePattern (split_nl content ! task_line task) = Some g"
    and "\<not> locked v (path (task_file task))"
  shows "\<exists>indent cur tx new.
           g 1 = Some indent \<and> g 2 = Some [cur] \<and> g 3 = Some tx \<and>
           isMarker cur \<and> new = (if cur = 32 then 120 else 32) \<and>
           (\<exists>w0 b ws1 ws2.
              split_nl content ! task_line task = w0 @ [b] @ ws1 @ [91, cur, 93] @ ws2 @ tx \<and>
              indent = w0 @ [b] \<and> list_all isWhiteSpace w0 \<and> isBullet b \<and>
              ws1 \<noteq> [] \<and> list_all isWhiteSpace ws1 \<and> ws2 \<noteq> [] \<and> list_all isWhiteSpace ws2) \<and>
           toggleTaskCompletionDirect v task =
             (True, task\<lparr>isCompleted := (new = 120)\<rparr>,
              v\<lparr>files := (files v)(path (task_file task) :=
                   Some (join_nl ((split_nl content)[task_line task :=
                      indent @ js '' ['' @ [new] @ js ''] '' @ tx])))\<rparr>) \<and>
           split_nl (join_nl ((split_nl content)[task_line task :=
                      indent @ js '' ['' @ [new] @ js ''] '' @ tx])) =
             (split_nl content)[task_line task := indent @ js '' ['' @ [new] @ js ''] '' @ tx]"
proof -
  let ?line = "split_nl content ! task_line task"
  from assms(3) obtain indent cur tx where p: "parseTaskLine ?line = Some (indent, cur, tx)"
    and g: "g = (\<lambda>n. None)(1 := Some indent, 2 := Some [cur], 3 := Some tx)"
    unfolding taskLine_match_parse by auto
  define new :: nat where "new = (if cur = 32 then 120 else 32)"
  from parseTaskLine_shape [OF p] obtain w0 b ws1 ws2 where sh:
    "?line = w0 @ [b] @ ws1 @ [91, cur, 93] @ ws2 @ tx" "indent = w0 @ [b]"
    "list_all isWhiteSpace w0" "isBullet b" "ws1 \<noteq> []" "list_all isWhiteSpace ws1"
    "isMarker cur" "ws2 \<noteq> []" "list_all isWhiteSpace ws2"
    by blast
  have t: "toggleTaskCompletionDirect v task =
             (True, task\<lparr>isCompleted := (new = 120)\<rparr>,
              v\<lparr>files := (files v)(path (task_file task) :=
                   Some (join_nl ((split_nl content)[task_line task :=
                      indent @ js '' ['' @ [new] @ js ''] '' @ tx])))\<rparr>)"
    unfolding toggle_direct_parse using assms(1,2,4) p by (simp add: new_def js_def)
  have "new \<noteq> 10" by (simp add: new_def)
  from rewritten_lines [OF assms(2) p this]
  have s: "split_nl (join_nl ((split_nl content)[task_line task :=
                      indent @ js '' ['' @ [new] @ js ''] '' @ tx])) =
             (split_nl content)[task_line task := indent @ js '' ['' @ [new] @ js ''] '' @ tx]"
    by (simp add: js_def)
  have g123: "g 1 = Some indent" "g 2 = Some [cur]" "g 3 = Some tx" by (simp_all add: g)
  show ?thesis
    using g123 sh t s new_def by blast
qed

text \<open>
  Claim C2, amended. When the direct toggle succeeds on a task, a second direct toggle
  succeeds as well, and after it \<^verbatim>\<open>isCompleted\<close> says whether the original marker was
  not a blank (the original value of the flag, whenever the flag agreed with the line), and
  the line is the indent, the text, and between them the marker: a blank if the original
  marker was a blank, \<^verbatim>\<open>x\<close> if it was \<^verbatim>\<open>x\<close>, \<^verbatim>\<open>X\<close>, U+2713 or U+2705.
\<close>

theorem toggle_twice:
  assumes "toggleTaskCompletionDirect v task = (True, task1, v1)"
  shows "\<exists>content g indent cur tx.
           files v (path (task_file task)) = Some content \<and>
           js_match False taskLinePattern (split_nl content ! task_line task) = Some g \<and>
           g 1 = Some indent \<and> g 2 = Some [cur] \<and> g 3 = Some tx \<and> isMarker cur \<and>
           toggleTaskCompletionDirect v1 task1 =
             (True, task\<lparr>isCompleted := (cur \<noteq> 32)\<rparr>,
              v\<lparr>files := (files v)(path (task_file task) :=
                   Some (join_nl ((split_nl content)[task_line task :=
                      indent @ js '' ['' @ [if cur = 32 then 32 else 120] @ js ''] '' @ tx])))\<rparr>)"
proof -
  let ?p = "path (task_file task)" and ?i = "task_line task"
  from toggle_direct_success [OF assms] obtain content indent cur tx where
    f: "files v ?p = Some content" and i: "?i < length (split_nl content)"
    and p: "parseTaskLine (split_nl content ! ?i) = Some (indent, cur, tx)"
    and nl: "\<not> locked v ?p"
    and t1: "task1 = task\<lparr>isCompleted := (cur = 32)\<rparr>"
    and v1: "v1 = v\<lparr>files := (files v)(?p :=
                  Some (join_nl ((split_nl content)[?i :=
                     indent @ [32, 91, if cur = 32 then 120 else 32, 93, 32] @ tx])))\<rparr>"
    by blast
  define new :: nat where "new = (if cur = 32 then 120 else 32)"
  define lines1 where "lines1 = (split_nl content)[?i := indent @ [32, 91, new, 93, 32] @ tx]"
  have m: "isMarker cur" using parseTaskLine_shape [OF p] by blast
  have newm: "isMarker new" by (simp add: new_def isMarker_def)
  have "new \<noteq> 10" by (simp add: new_def)
  from rewritten_lines [OF i p this] have sj: "split_nl (join_nl lines1) = lines1"
    by (simp add: lines1_def)
  have li: "lines1 ! ?i = indent @ [32, 91, new, 93, 32] @ tx" and len: "?i < length lines1"
    using i by (simp_all add: lines1_def)
  have p1: "parseTaskLine (lines1 ! ?i) = Some (indent, new, tx)"
    unfolding li by (rule parseTaskLine_rewritten [OF p newm])
  have f1: "files v1 ?p = Some (join_nl lines1)" and l1: "\<not> locked v1 ?p"
    using nl by (simp_all add: v1 lines1_def new_def)
  have paths: "path (task_file task1) = ?p" "task_line task1 = ?i" by (simp_all add: t1)
  have upd: "lines1[?i := x] = (split_nl content)[?i := x]" for x by (simp add: lines1_def)
  have "toggleTaskCompletionDirect v1 task1 =
      (True, task1\<lparr>isCompleted := (new = 32)\<rparr>,
       v1\<lparr>files := (files v1)(?p := Some (join_nl (lines1[?i :=
           indent @ [32, 91, if new = 32 then 120 else 32, 93, 32] @ tx])))\<rparr>)"
    unfolding toggle_direct_parse paths using f1 l1 len p1 sj by simp
  also have "\<dots> = (True, task\<lparr>isCompleted := (cur \<noteq> 32)\<rparr>,
              v\<lparr>files := (files v)(?p :=
                   Some (join_nl ((split_nl content)[?i :=
                      indent @ js '' ['' @ [if cur = 32 then 32 else 120] @ js ''] '' @ tx])))\<rparr>)"
    by (simp add: t1 v1 upd new_def js_def)
  finally have t2: "toggleTaskCompletionDirect v1 task1 =
      (True, task\<lparr>isCompleted := (cur \<noteq> 32)\<rparr>,
              v\<lparr>files := (files v)(?p :=
                   Some (join_nl ((split_nl content)[?i :=
                      indent @ js '' ['' @ [if cur = 32 then 32 else 120] @ js ''] '' @ tx])))\<rparr>)" .
  let ?g = "(\<lambda>n::nat. None)(1 := Some indent, 2 := Some [cur], 3 := Some tx)"
  have jm: "js_match False taskLinePattern (split_nl content ! ?i) = Some ?g"
    unfolding taskLine_match_parse by (simp add: p)
  have "?g 1 = Some indent" "?g 2 = Some [cur]" "?g 3 = Some tx" by simp_all
  with f jm m t2 show ?thesis by blast
qed

lemmas parse_eval = parseTaskLine_def parseBullet_def parseBox_def parseText_def
  isWhiteSpace_def isBullet_def isMarker_def isDot_def isLineTerminator_def js_def

theorem direct_toggle_rewrites_line_witness:
  "toggleTaskCompletionDirect (noteVault (js ''intro'' @ [10, 9] @ js ''* ['' @ [10003] @ js '']   buy milk''))
     (mkTask (js ''buy milk'') 3 (js ''n.md'') 1 True) =
   (True, (mkTask (js ''buy milk'') 3 (js ''n.md'') 1 True)\<lparr>isCompleted := False\<rparr>,
    (noteVault (js ''intro'' @ [10, 9] @ js ''* ['' @ [10003] @ js '']   buy milk''))
      \<lparr>files := (files (noteVault (js ''intro'' @ [10, 9] @ js ''* ['' @ [10003] @ js '']   buy milk'')))
          (js ''n.md'' := Some (js ''intro'' @ [10, 9] @ js ''* [ ] buy milk''))\<rparr>)"
proof -
  let ?c = "js ''intro'' @ [10, 9] @ js ''* ['' @ [10003] @ js '']   buy milk''"
  let ?v = "noteVault ?c"
  let ?t = "mkTask (js ''buy milk'') 3 (js ''n.md'') 1 True"
  let ?g = "(\<lambda>n::nat. None)(1 := Some ([9] @ js ''*''), 2 := Some [10003], 3 := Some (js ''buy milk''))"
  have h1: "files ?v (path (task_file ?t)) = Some ?c" by (simp add: noteVault_def mkTask_def)
  have sp: "split_nl ?c = [js ''intro'', [9] @ js ''* ['' @ [10003] @ js '']   buy milk'']"
    by (simp add: js_def)
  have h2: "task_line ?t < length (split_nl ?c)" unfolding sp by (simp add: mkTask_def)
  have h3: "js_match False taskLinePattern (split_nl ?c ! task_line ?t) = Some ?g"
    unfolding sp taskLine_match_parse by (simp add: mkTask_def parse_eval)
  have h4: "\<not> locked ?v (path (task_file ?t))" by (simp add: noteVault_def)
  from direct_toggle_rewrites_line [OF h1 h2 h3 h4] show ?thesis
    unfolding sp by (auto simp: js_def mkTask_def)
qed

theorem toggle_twice_witness:
  "toggleTaskCompletionDirect (noteVault (js ''- [x] a'')) (mkTask (js ''a'') 3 (js ''n.md'') 0 True) =
     (True, (mkTask (js ''a'') 3 (js ''n.md'') 0 True)\<lparr>isCompleted := False\<rparr>,
      (noteVault (js ''- [x] a''))\<lparr>files := (files (noteVault (js ''- [x] a'')))(js ''n.md'' := Some (js ''- [ ] a''))\<rparr>)
   \<and> fst (toggleTwice (noteVault (js ''- [x] a'')) (mkTask (js ''a'') 3 (js ''n.md'') 0 True))
   \<and> fst (snd (toggleTwice (noteVault (js ''- [x] a'')) (mkTask (js ''a'') 3 (js ''n.md'') 0 True)))
       = mkTask (js ''a'') 3 (js ''n.md'') 0 True
   \<and> files (snd (snd (toggleTwice (noteVault (js ''- [x] a'')) (mkTask (js ''a'') 3 (js ''n.md'') 0 True))))
        (js ''n.md'') = Some (js ''- [x] a'')"
proof -
  let ?v = "noteVault (js ''- [x] a'')"
  let ?t = "mkTask (js ''a'') 3 (js ''n.md'') 0 True"
  let ?t1 = "?t\<lparr>isCompleted := False\<rparr>"
  let ?v1 = "?v\<lparr>files := (files ?v)(js ''n.md'' := Some (js ''- [ ] a''))\<rparr>"
  have sp: "split_nl (js ''- [x] a'') = [js ''- [x] a'']" by (simp add: js_def)
  have h: "toggleTaskCompletionDirect ?v ?t = (True, ?t1, ?v1)"
    unfolding toggle_direct_parse by (simp add: noteVault_def mkTask_def parse_eval)
  have jm: "js_match False taskLinePattern (js ''- [x] a'') =
      Some ((\<lambda>n::nat. None)(1 := Some (js ''-''), 2 := Some [120], 3 := Some (js ''a'')))"
    unfolding taskLine_match_parse by (simp add: parse_eval)
  from toggle_twice [OF h] have "toggleTaskCompletionDirect ?v1 ?t1 =
      (True, ?t, ?v\<lparr>files := (files ?v)(js ''n.md'' := Some (js ''- [x] a''))\<rparr>)"
    by (auto simp: noteVault_def mkTask_def sp jm) (simp_all add: js_def)
  with h show ?thesis by (simp add: toggleTwice_def)
qed

text \<open>
  The claim as stated fails for the marker \<^verbatim>\<open>X\<close>: two successful toggles leave
  \<^verbatim>\<open>x\<close> in the line.
\<close>

theorem toggle_twice_changes_marker:
  "files (noteVault (js ''- [X] a'')) (js ''n.md'') = Some (js ''- [X] a'')
   \<and> fst (toggleTwice (noteVault (js ''- [X] a'')) (mkTask (js ''a'') 3 (js ''n.md'') 0 True))
   \<and> files (snd (snd (toggleTwice (noteVault (js ''- [X] a'')) (mkTask (js ''a'') 3 (js ''n.md'') 0 True))))
        (js ''n.md'') = Some (js ''- [x] a'')"
proof -
  let ?v = "noteVault (js ''- [X] a'')"
  let ?t = "mkTask (js ''a'') 3 (js ''n.md'') 0 True"
  let ?t1 = "?t\<lparr>isCompleted := False\<rparr>"
  let ?v1 = "?v\<lparr>files := (files ?v)(js ''n.md'' := Some (js ''- [ ] a''))\<rparr>"
  let ?v2 = "?v\<lparr>files := (files ?v)(js ''n.md'' := Some (js ''- [x] a''))\<rparr>"
  have sp: "split_nl (js ''- [X] a'') = [js ''- [X] a'']" "split_nl (js ''- [ ] a'') = [js ''- [ ] a'']"
    by (simp_all add: js_def)
  have h1: "toggleTaskCompletionDirect ?v ?t = (True, ?t1, ?v1)"
    unfolding toggle_direct_parse by (simp add: noteVault_def mkTask_def parse_eval)
  have h2: "toggleTaskCompletionDirect ?v1 ?t1 = (True, ?t, ?v2)"
    unfolding toggle_direct_parse by (simp add: noteVault_def mkTask_def parse_eval)
  show ?thesis
    by (simp add: toggleTwice_def h1 h2) (simp add: noteVault_def)
qed

section \<open>Claims about the completion toggle\<close>

lemma direct_failure:
  "\<not> fst (toggleTaskCompletionDirect v task) \<Longrightarrow> toggleTaskCompletionDirect v task = (False, task, v)"
  by (auto simp: toggleTaskCompletionDirect_def Let_def split: sum.splits option.splits if_splits)

lemma viaCommand_failure:
  "\<not> fst (toggleTaskViaCommand h v task) \<Longrightarrow> toggleTaskViaCommand h v task = (False, task, v)"
  by (auto simp: toggleTaskViaCommand_def direct_failure split: sum.splits option.splits bool.splits)

lemma taskMethods_failure:
  "\<not> fst (toggleByTaskMethods h a v task) \<Longrightarrow> toggleByTaskMethods h a v task = (False, task, v)"
  by (auto simp: toggleByTaskMethods_def viaCommand_failure split: sum.splits option.splits)

lemma listing_failure:
  "\<not> fst (toggleByListing h api v task) \<Longrightarrow> toggleByListing h api v task = (False, task, v)"
  by (auto simp: toggleByListing_def viaCommand_failure taskMethods_failure direct_failure
      split: sum.splits option.splits)

lemma commandLine_failure:
  "toggleByCommandLine cmd v task = Returned r \<Longrightarrow> \<not> fst r \<Longrightarrow> r = (False, task, v)"
  by (auto simp: toggleByCommandLine_def Let_def direct_failure
      split: sum.splits option.splits if_splits jsany.splits)

lemma byApi_success: "toggleByApi api tt v task = Some r \<Longrightarrow> fst r"
  by (auto simp: toggleByApi_def split: sum.splits option.splits)

text \<open>
  What does hold on failure: the task is as it was, and the vault is the vault on which the
  methods after the first ran, which is the vault that was given unless the first method
  fell through.
\<close>

lemma toggle_failure:
  assumes "\<not> fst (toggleTaskCompletion h v task)"
  shows "toggleTaskCompletion h v task = (False, task, v) \<or>
         (\<exists>api cmd v1. tasksPluginApi h = Some api \<and> executeToggleTaskDoneCommand api = Some cmd \<and>
            toggleByCommandLine cmd v task = FellThrough v1 \<and>
            toggleTaskCompletion h v task = (False, task, v1))"
proof (cases "tasksPluginApi h")
  case None
  with assms show ?thesis by (simp add: toggleTaskCompletion_def direct_failure)
next
  case (Some api)
  have rest: "(case (case toggleTask api of None \<Rightarrow> None | Some tt \<Rightarrow> toggleByApi api tt w task) of
                 Some r \<Rightarrow> r | None \<Rightarrow> toggleByListing h api w task) = (False, task, w)"
    if "\<not> fst (case (case toggleTask api of None \<Rightarrow> None | Some tt \<Rightarrow> toggleByApi api tt w task) of
                 Some r \<Rightarrow> r | None \<Rightarrow> toggleByListing h api w task)" for w
    using that byApi_success listing_failure by (auto split: option.splits)
  show ?thesis
  proof (cases "executeToggleTaskDoneCommand api")
    case None
    with Some assms show ?thesis
      using rest [of v] by (simp add: toggleTaskCompletion_def)
  next
    case cmd: (Some cmd)
    show ?thesis
    proof (cases "toggleByCommandLine cmd v task")
      case (Returned r)
      with Some cmd assms show ?thesis
        using commandLine_failure [OF Returned] by (simp add: toggleTaskCompletion_def)
    next
      case (FellThrough v1)
      with Some cmd assms have "toggleTaskCompletion h v task = (False, task, v1)"
        using rest [of v1] by (simp add: toggleTaskCompletion_def)
      with Some cmd FellThrough show ?thesis by blast
    qed
  qed
qed

text \<open>
  Claim C9 does not hold of the code when \<^verbatim>\<open>executeToggleTaskDoneCommand\<close> returns a
  value that is not a string. With a plugin that returns \<^verbatim>\<open>undefined\<close> and offers
  nothing else, on the note \<^verbatim>\<open>- [ ] a\<close>: the first method writes the empty line to the
  note, the call of \<^verbatim>\<open>match\<close> throws, and the direct toggle, which is reached in the
  end, finds no checklist on the line and returns false. The toggle has failed, the task
  is unchanged and the checkbox is back at its value, but the note has lost its line.
\<close>

theorem toggle_failure_after_write:
  "toggleTaskCompletion undefinedHost (noteVault (js ''- [ ] a'')) (mkTask (js ''a'') 3 (js ''n.md'') 0 False)
     = (False, mkTask (js ''a'') 3 (js ''n.md'') 0 False, noteVault []) \<and>
   files (noteVault (js ''- [ ] a'')) (js ''n.md'') = Some (js ''- [ ] a'') \<and>
   files (noteVault []) (js ''n.md'') = Some [] \<and>
   clickCheckbox undefinedHost (noteVault (js ''- [ ] a'')) (mkTask (js ''a'') 3 (js ''n.md'') 0 False) False
     = (False, mkTask (js ''a'') 3 (js ''n.md'') 0 False, noteVault [])"
proof -
  let ?v = "noteVault (js ''- [ ] a'')"
  let ?t = "mkTask (js ''a'') 3 (js ''n.md'') 0 False"
  have w: "?v\<lparr>files := (files ?v)(js ''n.md'' := Some [])\<rparr> = noteVault []"
    by (simp add: noteVault_def fun_eq_iff)
  have m1: "toggleByCommandLine (\<lambda>l p. Inr (JOther [])) ?v ?t = FellThrough (noteVault [])"
    using w by (simp add: toggleByCommandLine_def vault_read_def vault_modify_def joinText_def
        noteVault_def mkTask_def js_def)
  have d: "toggleTaskCompletionDirect (noteVault []) ?t = (False, ?t, noteVault [])"
    unfolding toggle_direct_parse by (simp add: noteVault_def mkTask_def parse_eval)
  have c: "tryCommands undefinedHost (noteVault []) cs = None" for cs
    by (induction cs) (simp_all add: undefinedHost_def)
  have vc: "toggleTaskViaCommand undefinedHost (noteVault []) ?t = (False, ?t, noteVault [])"
    unfolding toggleTaskViaCommand_def c d by (simp add: undefinedHost_def)
  have li: "toggleByListing undefinedHost undefinedApi (noteVault []) ?t = (False, ?t, noteVault [])"
    unfolding toggleByListing_def vc by (simp add: allTasks_def undefinedApi_def)
  have api: "tasksPluginApi undefinedHost = Some undefinedApi" by (simp add: undefinedHost_def)
  have e: "executeToggleTaskDoneCommand undefinedApi = Some (\<lambda>l p. Inr (JOther []))"
    "toggleTask undefinedApi = None" by (simp_all add: undefinedApi_def)
  have h: "toggleTaskCompletion undefinedHost ?v ?t = (False, ?t, noteVault [])"
    by (simp add: toggleTaskCompletion_def api e m1 li)
  have f: "files ?v (js ''n.md'') = Some (js ''- [ ] a'')" "files (noteVault []) (js ''n.md'') = Some []"
    by (simp_all add: noteVault_def)
  have k: "clickCheckbox undefinedHost ?v ?t False = (False, ?t, noteVault [])"
    by (simp add: clickCheckbox_def onCheckboxChange_def h)
  from h f k show ?thesis by simp
qed

section \<open>Claims about the date of a new task\<close>

lemma try_down_numeral:
  "try_down f lo (numeral n) =
     (if numeral n < lo then None
      else case f (numeral n) of Some r \<Rightarrow> Some r | None \<Rightarrow> try_down f lo (pred_numeral n))"
  by (simp add: numeral_eq_Suc)

lemmas rx_eval = rx_init_def consume_def run_length_def lit_at_def canonicalize_def try_down_numeral
  isDigit_def isWhiteSpace_def js_def calendarEmoji_def

lemma bare_date_matches: "js_match False isoDateAtoms (js ''- [ ] a 2025-03-14'') \<noteq> None"
  by (simp add: js_match_def isoDateAtoms_def rx_eval)

lemma alts_at: "rx_at ic [Alts ls] s st \<noteq> None \<longleftrightarrow> (\<exists>l \<in> set ls. lit_at ic l s)"
  by (induction ls) (auto split: option.splits)

lemma alts_search: "rx_search True [Alts ls] i s \<noteq> None \<longleftrightarrow> (\<exists>l \<in> set ls. occursNoCase s l)"
proof (induction s arbitrary: i)
  case Nil
  show ?case using alts_at [of True ls "[]" "rx_init i"] by simp
next
  case (Cons c cs)
  show ?case
    using alts_at [of True ls "c # cs" "rx_init i"] Cons.IH [of "Suc i"]
    by (auto split: option.splits)
qed

lemma hasDate_keywordIn: "js_match True hasDatePattern s = None \<longleftrightarrow> \<not> keywordIn s"
  using alts_search [of dateKeywords 0 s] by (auto simp: js_match_def hasDatePattern_def keywordIn_def)

lemma bare_date_no_keyword: "\<not> keywordIn (js ''- [ ] a 2025-03-14'')"
  by (simp add: keywordIn_def dateKeywords_def rx_eval)

lemma dateStr_example: "dateStr utcZone (20183 * msPerDay) = js ''2025-04-05''"
proof -
  have y: "yearFromDay 20183 = 2025"
    by (simp add: yearFromDay_def dayFromYear_def)
  have m: "monthFromDay 20183 = 3"
    by (simp add: monthFromDay_def y dayFromYear_def inLeapYear_def monthStart_def)
  have g: "getFullYear utcZone (20183 * msPerDay) = 2025" "getMonth utcZone (20183 * msPerDay) = 3"
    "getDate utcZone (20183 * msPerDay) = 5"
    by (simp_all add: getFullYear_def getMonth_def getDate_def YearFromTime_def MonthFromTime_def
        DateFromTime_def utc_day y m dayFromYear_def inLeapYear_def monthStart_def)
  show ?thesis
    by (simp add: dateStr_def g numberString_def padStart2_def digits.simps js_def)
qed

lemma occursNoCase_append: "occursNoCase s kw \<Longrightarrow> occursNoCase (p @ s) kw"
proof (induction p)
  case Nil
  then show ?case by simp
next
  case (Cons c p)
  then show ?case by simp
qed

lemma keywordIn_due: "keywordIn (p @ js '' due::'' @ x)"
proof -
  have "lit_at True (js ''due::'') (js ''due::'' @ x)"
    by (simp add: lit_at_def js_def)
  then have "occursNoCase (js '' due::'' @ x) (js ''due::'')"
    by (simp add: js_def)
  then have "occursNoCase (p @ js '' due::'' @ x) (js ''due::'')"
    by (rule occursNoCase_append)
  then show ?thesis by (auto simp: keywordIn_def dateKeywords_def)
qed

text \<open>
  Claim C7, amended. With a date supplied, the due-date token is appended to the trimmed
  line exactly when none of the keywords \<^verbatim>\<open>due::\<close>, \<^verbatim>\<open>due:\<close>, \<^verbatim>\<open>start::\<close>,
  \<^verbatim>\<open>start:\<close>, \<^verbatim>\<open>scheduled::\<close>, \<^verbatim>\<open>scheduled:\<close> (in any case) and the calendar
  emoji occurs in the line; a bare date in the line does not count. The target date is then
  the date that \<^verbatim>\<open>extractDateFromText\<close> finds in the final line; when it finds none,
  the target is the supplied date, and today only when no date was supplied.
\<close>

theorem insertTask_date_token:
  "(keywordIn taskLine \<longrightarrow> finalTaskLine z (Some d) taskLine = taskLine) \<and>
   (\<not> keywordIn taskLine \<longrightarrow>
      finalTaskLine z (Some d) taskLine = trim taskLine @ js '' due::'' @ dateStr z d \<and>
      finalTaskLine z (Some d) taskLine \<noteq> taskLine) \<and>
   targetDate z newDate now (Some d) taskLine =
     (case extractDateFromText z newDate (finalTaskLine z (Some d) taskLine) of
        Some e \<Rightarrow> e | None \<Rightarrow> DateAt d) \<and>
   finalTaskLine z None taskLine = taskLine \<and>
   targetDate z newDate now None taskLine =
     (case extractDateFromText z newDate taskLine of Some e \<Rightarrow> e | None \<Rightarrow> DateAt now)"
proof -
  have a: "keywordIn taskLine \<longrightarrow> finalTaskLine z (Some d) taskLine = taskLine"
    using hasDate_keywordIn [of taskLine] by (auto simp: finalTaskLine_def Let_def)
  have b: "finalTaskLine z (Some d) taskLine = trim taskLine @ js '' due::'' @ dateStr z d"
    if "\<not> keywordIn taskLine"
    using that hasDate_keywordIn [of taskLine] by (simp add: finalTaskLine_def Let_def)
  have c: "finalTaskLine z (Some d) taskLine \<noteq> taskLine" if "\<not> keywordIn taskLine"
    using that keywordIn_due [of "trim taskLine" "dateStr z d"] b [OF that] by auto
  have e: "targetDate z newDate now (Some d) taskLine =
     (case extractDateFromText z newDate (finalTaskLine z (Some d) taskLine) of
        Some e \<Rightarrow> e | None \<Rightarrow> DateAt d)"
    by (simp add: targetDate_def Let_def split: option.splits)
  have f: "finalTaskLine z None taskLine = taskLine" by (simp add: finalTaskLine_def)
  have g: "targetDate z newDate now None taskLine =
     (case extractDateFromText z newDate taskLine of Some e \<Rightarrow> e | None \<Rightarrow> DateAt now)"
    by (simp add: targetDate_def f Let_def split: option.splits)
  from a b c e f g show ?thesis by blast
qed

lemma trim_example: "trim (js ''- [ ] buy '') = js ''- [ ] buy''"
  by (simp add: trim_def js_def isWhiteSpace_def)

lemma plain_line_no_keyword: "\<not> keywordIn (js ''- [ ] buy '')"
  by (simp add: keywordIn_def dateKeywords_def rx_eval)

lemma isoNewDate_example: "isoNewDate (js ''2025-04-05'') = DateAt (20183 * msPerDay)"
proof -
  have n: "undigits [50, 48, 50, 53] = 2025" "undigits [48, 52] = 4" "undigits [48, 53] = 5"
    by (simp_all add: undigits_def)
  have k: "makeDay 2025 3 5 = 20183" "daysInMonth 2025 3 = 30"
    by (simp_all add: daysInMonth_def makeDay_def dayFromYear_def inLeapYear_def monthStart_def)
  have "isoNewDate (js ''2025-04-05'') = TimeClip (20183 * msPerDay)"
    by (simp add: isoNewDate_def js_def isDigit_def n k)
  then show ?thesis by (simp add: TimeClip_def msPerDay_def)
qed

lemma extract_example:
  "extractDateFromText utcZone isoNewDate (js ''- [ ] buy due::2025-04-05'')
     = Some (DateAt (20183 * msPerDay))"
proof -
  have d: "isoNewDate [50, 48, 50, 53, 45, 48, 52, 45, 48, 53] = DateAt (20183 * msPerDay)"
    using isoNewDate_example by (simp add: js_def)
  have m: "setHours0 utcZone (DateAt (20183 * msPerDay)) = DateAt (20183 * msPerDay)"
    by (simp add: utc_eval)
  show ?thesis
    by (simp add: extractDateFromText_def datePatterns_def js_match_def isoDateAtoms_def rx_eval
        group_text_def d m del: setHours0.simps)
qed

theorem insertTask_date_token_witness:
  "\<not> keywordIn (js ''- [ ] buy '') \<and>
   finalTaskLine utcZone (Some (20183 * msPerDay)) (js ''- [ ] buy '') = js ''- [ ] buy due::2025-04-05'' \<and>
   targetDate utcZone isoNewDate (20200 * msPerDay + 5) (Some (20183 * msPerDay)) (js ''- [ ] buy '')
     = DateAt (20183 * msPerDay)"
proof -
  have j: "js ''- [ ] buy'' @ js '' due::'' @ js ''2025-04-05'' = js ''- [ ] buy due::2025-04-05''"
    by (simp add: js_def)
  from insertTask_date_token [of "js ''- [ ] buy ''" utcZone "20183 * msPerDay" isoNewDate
      "20200 * msPerDay + 5"]
  show ?thesis
    by (simp add: plain_line_no_keyword trim_example dateStr_example j extract_example)
qed

text \<open>
  The claim as stated fails twice: a line with a bare \<^verbatim>\<open>YYYY-MM-DD\<close> date, which the
  second pattern of \<^verbatim>\<open>extractDateFromText\<close> matches, still gets the token; and with a
  date supplied and none found in the line, the target is the supplied date, not today.
\<close>

theorem bare_date_gets_token:
  "js_match False isoDateAtoms (js ''- [ ] a 2025-03-14'') \<noteq> None \<and>
   finalTaskLine utcZone (Some (20183 * msPerDay)) (js ''- [ ] a 2025-03-14'')
     = js ''- [ ] a 2025-03-14 due::2025-04-05'' \<and>
   targetDate utcZone isoNewDate (20200 * msPerDay + 5) (Some (20183 * msPerDay)) (js ''- [ ] a due: soon'')
     = DateAt (20183 * msPerDay)"
proof -
  have t: "trim (js ''- [ ] a 2025-03-14'') = js ''- [ ] a 2025-03-14''"
    by (simp add: trim_def js_def isWhiteSpace_def)
  have j: "js ''- [ ] a 2025-03-14'' @ js '' due::'' @ js ''2025-04-05'' = js ''- [ ] a 2025-03-14 due::2025-04-05''"
    by (simp add: js_def)
  have f: "finalTaskLine utcZone (Some (20183 * msPerDay)) (js ''- [ ] a 2025-03-14'')
     = js ''- [ ] a 2025-03-14 due::2025-04-05''"
    using bare_date_no_keyword hasDate_keywordIn [of "js ''- [ ] a 2025-03-14''"]
    by (simp add: finalTaskLine_def t dateStr_example j)
  have k: "keywordIn (js ''- [ ] a due: soon'')"
    by (simp add: keywordIn_def dateKeywords_def rx_eval)
  have f2: "finalTaskLine utcZone (Some (20183 * msPerDay)) (js ''- [ ] a due: soon'') = js ''- [ ] a due: soon''"
    using k hasDate_keywordIn [of "js ''- [ ] a due: soon''"] by (auto simp: finalTaskLine_def)
  have e: "extractDateFromText utcZone isoNewDate (js ''- [ ] a due: soon'') = None"
    by (simp add: extractDateFromText_def datePatterns_def js_match_def isoDateAtoms_def
        dayFirstAtoms_def rx_eval)
  have g: "targetDate utcZone isoNewDate (20200 * msPerDay + 5) (Some (20183 * msPerDay)) (js ''- [ ] a due: soon'')
     = DateAt (20183 * msPerDay)"
    by (simp add: targetDate_def f2 e)
  from bare_date_matches f g show ?thesis by simp
qed

section \<open>Claims about the dates of discovered tasks\<close>

lemma midnight_zero:
  "HourFromTime (n * msPerDay) = 0" "MinFromTime (n * msPerDay) = 0"
  "SecFromTime (n * msPerDay) = 0" "msFromTime (n * msPerDay) = 0"
proof -
  have "n * msPerDay div 3600000 = 24 * n" "n * msPerDay div 60000 = 1440 * n"
    "n * msPerDay div 1000 = 86400 * n" "n * msPerDay mod 1000 = 0"
    by (simp_all add: msPerDay_def)
  then show "HourFromTime (n * msPerDay) = 0" "MinFromTime (n * msPerDay) = 0"
    "SecFromTime (n * msPerDay) = 0" "msFromTime (n * msPerDay) = 0"
    by (simp_all add: HourFromTime_def MinFromTime_def SecFromTime_def msFromTime_def)
qed

lemma setHours0_in_order:
  assumes "midnightInOrder z x"
  shows "setHours0 z (DateAt x) = DateAt (dayStart z x)"
    and "getHours z (DateAt (dayStart z x)) = Some 0"
    and "getMinutes z (DateAt (dayStart z x)) = Some 0"
    and "getSeconds z (DateAt (dayStart z x)) = Some 0"
    and "getMilliseconds z (DateAt (dayStart z x)) = Some 0"
  using assms by (simp_all add: midnightInOrder_def dayStart_def TimeClip_def midnight_zero)

lemma setHours0_form:
  assumes "d \<noteq> InvalidDate \<or> today e = InvalidDate"
  shows "\<exists>x. setHours0 (timeZone e) d = setHours0 (timeZone e) (DateAt x)"
proof (cases d)
  case InvalidDate
  with assms have "setHours0 (timeZone e) (DateAt (currentTime e)) = InvalidDate"
    by (simp add: today_def)
  with InvalidDate have "setHours0 (timeZone e) d = setHours0 (timeZone e) (DateAt (currentTime e))"
    by simp
  then show ?thesis by blast
next
  case (DateAt x)
  then show ?thesis by blast
qed

lemma manualDate_form: "\<exists>x. manualDate e file s = setHours0 (timeZone e) (DateAt x)"
  unfolding manualDate_def Let_def
  by (rule setHours0_form) (auto split: option.splits jsdate.splits)

lemma apiDate_form: "\<exists>x. apiDate e file a = setHours0 (timeZone e) (DateAt x)"
  unfolding apiDate_def Let_def
  by (rule setHours0_form) (auto split: option.splits jsdate.splits)

lemma manualDate_today:
  assumes "extractDateFromText (timeZone e) (newDateOf e) s = None" and "noNameDate e file"
  shows "manualDate e file s
    = setHours0 (timeZone e) (setHours0 (timeZone e) (DateAt (currentTime e)))"
  using assms by (simp add: manualDate_def fileDate_def noNameDate_def today_def Let_def)

lemma apiDate_today:
  assumes "api_dueDate a = []" and "api_startDate a = []" and "api_scheduledDate a = []"
    and "extractDateFromText (timeZone e) (newDateOf e) (api_text a) = None" and "noNameDate e file"
  shows "apiDate e file a
    = setHours0 (timeZone e) (setHours0 (timeZone e) (DateAt (currentTime e)))"
  using assms by (simp add: apiDate_def noDate_def fileDate_def noNameDate_def today_def Let_def)

lemma scanLines_date:
  "t \<in> set (scanLines e file i ls) \<Longrightarrow> task_date t = Some (manualDate e (task_file t) (task_text t))"
proof (induction ls arbitrary: i)
  case Nil
  then show ?case by simp
next
  case (Cons l ls)
  from Cons.prems have "scanLine e file i l ls = Some t \<or> t \<in> set (scanLines e file (Suc i) ls)"
    by (auto split: option.splits)
  then show ?case
  proof
    assume "scanLine e file i l ls = Some t"
    then show ?thesis
      by (auto simp: scanLine_def Let_def split: option.splits if_splits)
  next
    assume "t \<in> set (scanLines e file (Suc i) ls)"
    then show ?thesis by (rule Cons.IH)
  qed
qed

lemma manual_date:
  "t \<in> set (loadTasksManually e v fs) \<Longrightarrow> task_date t = Some (manualDate e (task_file t) (task_text t))"
  by (auto simp: loadTasksManually_def dest: scanLines_date split: if_splits sum.splits)

lemma api_date:
  assumes "t \<in> set (loadTasksFromAPI e v fs api)"
  shows "task_date t = Some (manualDate e (task_file t) (task_text t)) \<or>
         (\<exists>a. task_date t = Some (apiDate e (task_file t) a))"
proof -
  have one: "apiTaskToTask e v a = Some t \<Longrightarrow> task_date t = Some (apiDate e (task_file t) a)" for a
    by (auto simp: apiTaskToTask_def Let_def split: option.splits if_splits)
  from assms consider "t \<in> set (loadTasksManually e v fs)" | a where "apiTaskToTask e v a = Some t"
    by (auto simp: loadTasksFromAPI_def List.map_filter_def split: option.splits sum.splits)
  then show ?thesis
  proof cases
    case 1
    then show ?thesis by (simp add: manual_date)
  next
    case 2
    from one [OF 2] show ?thesis by blast
  qed
qed

lemma loadTasks_date:
  assumes "t \<in> set (loadTasks e h v fs)"
  shows "task_date t = Some (manualDate e (task_file t) (task_text t)) \<or>
         (\<exists>a. task_date t = Some (apiDate e (task_file t) a))"
proof -
  from assms have "t \<in> set (case tasksPluginApi h of
          Some api \<Rightarrow> loadTasksFromAPI e v fs api
        | None \<Rightarrow> loadTasksManually e v fs)"
    using loadTasks_finish_subset by (auto simp: loadTasks_def)
  then show ?thesis
    by (auto dest: api_date manual_date split: option.splits)
qed

text \<open>
  Claim C6, amended. Every task of the aggregated list, whichever strategy discovered it,
  has a date that is not \<^verbatim>\<open>null\<close>: it is what \<^verbatim>\<open>setHours(0, 0, 0, 0)\<close> gives for a
  valid date, and its hours, minutes, seconds and milliseconds are zero whenever the local
  midnight of that day exists in the zone and lies in the range of \<^verbatim>\<open>Date\<close>. The date
  is the one that the scan of a note or the listing of the plugin computes from the task
  and its note, and when neither the task nor the name of the note gives a date, it is
  today: the current time, set to the start of its day.
\<close>

theorem stored_dates_at_midnight:
  "(\<forall>t \<in> set (loadTasks e h v markdownFiles).
      (\<exists>x. task_date t = Some (setHours0 (timeZone e) (DateAt x))) \<and>
      (\<forall>x. task_date t = Some (setHours0 (timeZone e) (DateAt x)) \<and> midnightInOrder (timeZone e) x \<longrightarrow>
         (\<exists>ms. task_date t = Some (DateAt ms) \<and> getHours (timeZone e) (DateAt ms) = Some 0 \<and>
            getMinutes (timeZone e) (DateAt ms) = Some 0 \<and> getSeconds (timeZone e) (DateAt ms) = Some 0 \<and>
            getMilliseconds (timeZone e) (DateAt ms) = Some 0)) \<and>
      (task_date t = Some (manualDate e (task_file t) (task_text t)) \<or>
       (\<exists>a. task_date t = Some (apiDate e (task_file t) a)))) \<and>
   (extractDateFromText (timeZone e) (newDateOf e) s = None \<and> noNameDate e file \<longrightarrow>
      manualDate e file s
        = setHours0 (timeZone e) (setHours0 (timeZone e) (DateAt (currentTime e)))) \<and>
   (api_dueDate a = [] \<and> api_startDate a = [] \<and> api_scheduledDate a = [] \<and>
    extractDateFromText (timeZone e) (newDateOf e) (api_text a) = None \<and> noNameDate e file \<longrightarrow>
      apiDate e file a
        = setHours0 (timeZone e) (setHours0 (timeZone e) (DateAt (currentTime e))))"
proof -
  let ?z = "timeZone e"
  have zero: "\<exists>ms. d = Some (DateAt ms) \<and> getHours ?z (DateAt ms) = Some 0 \<and>
            getMinutes ?z (DateAt ms) = Some 0 \<and> getSeconds ?z (DateAt ms) = Some 0 \<and>
            getMilliseconds ?z (DateAt ms) = Some 0"
    if "d = Some (setHours0 ?z (DateAt x))" and "midnightInOrder ?z x" for d x
    using that(1) setHours0_in_order [OF that(2)] by (intro exI [of _ "dayStart ?z x"]) simp
  have form: "\<exists>x. task_date t = Some (setHours0 ?z (DateAt x))"
    if "t \<in> set (loadTasks e h v markdownFiles)" for t
  proof -
    from loadTasks_date [OF that] show ?thesis
    proof
      assume "task_date t = Some (manualDate e (task_file t) (task_text t))"
      with manualDate_form [of e "task_file t" "task_text t"] show ?thesis by auto
    next
      assume "\<exists>a. task_date t = Some (apiDate e (task_file t) a)"
      then obtain a where "task_date t = Some (apiDate e (task_file t) a)" ..
      with apiDate_form [of e "task_file t" a] show ?thesis by auto
    qed
  qed
  have stored: "\<forall>t \<in> set (loadTasks e h v markdownFiles).
      (\<exists>x. task_date t = Some (setHours0 ?z (DateAt x))) \<and>
      (\<forall>x. task_date t = Some (setHours0 ?z (DateAt x)) \<and> midnightInOrder ?z x \<longrightarrow>
         (\<exists>ms. task_date t = Some (DateAt ms) \<and> getHours ?z (DateAt ms) = Some 0 \<and>
            getMinutes ?z (DateAt ms) = Some 0 \<and> getSeconds ?z (DateAt ms) = Some 0 \<and>
            getMilliseconds ?z (DateAt ms) = Some 0)) \<and>
      (task_date t = Some (manualDate e (task_file t) (task_text t)) \<or>
       (\<exists>a. task_date t = Some (apiDate e (task_file t) a)))"
  proof (intro ballI conjI allI impI)
    fix t assume "t \<in> set (loadTasks e h v markdownFiles)"
    then show "\<exists>x. task_date t = Some (setHours0 ?z (DateAt x))" by (rule form)
  next
    fix t x assume "task_date t = Some (setHours0 ?z (DateAt x)) \<and> midnightInOrder ?z x"
    then show "\<exists>ms. task_date t = Some (DateAt ms) \<and> getHours ?z (DateAt ms) = Some 0 \<and>
            getMinutes ?z (DateAt ms) = Some 0 \<and> getSeconds ?z (DateAt ms) = Some 0 \<and>
            getMilliseconds ?z (DateAt ms) = Some 0"
      using zero by blast
  next
    fix t assume "t \<in> set (loadTasks e h v markdownFiles)"
    then show "task_date t = Some (manualDate e (task_file t) (task_text t)) \<or>
       (\<exists>a. task_date t = Some (apiDate e (task_file t) a))" by (rule loadTasks_date)
  qed
  have m: "extractDateFromText ?z (newDateOf e) s = None \<and> noNameDate e file \<longrightarrow>
      manualDate e file s = setHours0 ?z (setHours0 ?z (DateAt (currentTime e)))"
    using manualDate_today by blast
  have a: "api_dueDate a = [] \<and> api_startDate a = [] \<and> api_scheduledDate a = [] \<and>
    extractDateFromText ?z (newDateOf e) (api_text a) = None \<and> noNameDate e file \<longrightarrow>
      apiDate e file a = setHours0 ?z (setHours0 ?z (DateAt (currentTime e)))"
    using apiDate_today by blast
  from stored m a show ?thesis by (intro conjI)
qed

text \<open>
  The scan of the note \<^verbatim>\<open>n.md\<close> with one task dated 14 March 2025, in a zone \<open>z\<close>
  in which \<^verbatim>\<open>setHours(0, 0, 0, 0)\<close> leaves midnight UTC of that day as it is.
\<close>

lemma isoNewDate_march: "isoNewDate (js ''2025-03-14'') = DateAt (20161 * msPerDay)"
proof -
  have n: "undigits [50, 48, 50, 53] = 2025" "undigits [48, 51] = 3" "undigits [49, 52] = 14"
    by (simp_all add: undigits_def)
  have k: "makeDay 2025 2 14 = 20161" "daysInMonth 2025 2 = 31"
    by (simp_all add: daysInMonth_def makeDay_def dayFromYear_def inLeapYear_def monthStart_def)
  have "isoNewDate (js ''2025-03-14'') = TimeClip (20161 * msPerDay)"
    by (simp add: isoNewDate_def js_def isDigit_def n k)
  then show ?thesis by (simp add: TimeClip_def msPerDay_def)
qed

lemma scan_dated_note:
  assumes "setHours0 z (DateAt (20161 * msPerDay)) = DateAt (20161 * msPerDay)"
  shows "loadTasks (plainEnv z) bareHost
       (noteVault (js ''- [ ] Buy milk '' @ calendarEmoji @ js '' 2025-03-14''))
       [\<lparr>path = js ''n.md'', basename = js ''n''\<rparr>]
     = [\<lparr>task_text = js ''Buy milk '' @ calendarEmoji @ js '' 2025-03-14'',
         task_date = Some (DateAt (20161 * msPerDay)),
         task_file = \<lparr>path = js ''n.md'', basename = js ''n''\<rparr>,
         task_line = 0, isCompleted = False\<rparr>]"
proof -
  let ?line = "js ''- [ ] Buy milk '' @ calendarEmoji @ js '' 2025-03-14''"
  let ?text = "js ''Buy milk '' @ calendarEmoji @ js '' 2025-03-14''"
  let ?f = "\<lparr>path = js ''n.md'', basename = js ''n''\<rparr>"
  let ?t = "\<lparr>task_text = ?text, task_date = Some (DateAt (20161 * msPerDay)),
       task_file = ?f, task_line = 0, isCompleted = False\<rparr>"
  have d: "isoNewDate [50, 48, 50, 53, 45, 48, 51, 45, 49, 52] = DateAt (20161 * msPerDay)"
    using isoNewDate_march by (simp add: js_def)
  have x: "extractDateFromText z isoNewDate ?text = Some (DateAt (20161 * msPerDay))"
    by (simp add: extractDateFromText_def datePatterns_def js_match_def isoDateAtoms_def rx_eval
        group_text_def d assms del: setHours0.simps)
  have md: "manualDate (plainEnv z) ?f ?text = DateAt (20161 * msPerDay)"
    by (simp add: manualDate_def plainEnv_def x assms del: setHours0.simps)
  have sm: "js_match False scanPattern ?line =
      Some ((\<lambda>n. None)(1 := Some [], 2 := Some (js '' ''), 3 := Some ?text))"
    by (simp add: js_match_def scanPattern_def rx_eval isBullet_def isMarker_def isDot_def
        isLineTerminator_def fun_eq_iff)
  have inc: "str_includes ?text calendarEmoji"
    by (simp add: js_def calendarEmoji_def)
  have sl: "scanLine (plainEnv z) ?f 0 ?line [] = Some ?t"
    unfolding scanLine_def sm by (simp add: group_text_def inc md)
  have sp: "split_nl ?line = [?line]" by (simp add: js_def calendarEmoji_def)
  have raw: "loadTasksManually (plainEnv z) (noteVault ?line) [?f] = [?t]"
    by (simp add: loadTasksManually_def inScope_def normalizedFolderPath_def plainEnv_def js_or_def
        trim_def noteVault_def vault_read_def sp sl [unfolded plainEnv_def])
  have fin: "loadTasks_finish [?t] = [?t]"
    by (simp add: loadTasks_finish_def hasCalendarEmoji_def inc map_has_def)
  show ?thesis
    by (simp add: loadTasks_def bareHost_def raw fin)
qed

theorem stored_dates_at_midnight_witness:
  "loadTasks (plainEnv utcZone) bareHost
       (noteVault (js ''- [ ] Buy milk '' @ calendarEmoji @ js '' 2025-03-14''))
       [\<lparr>path = js ''n.md'', basename = js ''n''\<rparr>]
     = [\<lparr>task_text = js ''Buy milk '' @ calendarEmoji @ js '' 2025-03-14'',
         task_date = Some (DateAt (20161 * msPerDay)),
         task_file = \<lparr>path = js ''n.md'', basename = js ''n''\<rparr>,
         task_line = 0, isCompleted = False\<rparr>]
   \<and> midnightInOrder utcZone (20161 * msPerDay)
   \<and> getHours utcZone (DateAt (20161 * msPerDay)) = Some 0
   \<and> getMinutes utcZone (DateAt (20161 * msPerDay)) = Some 0
   \<and> manualDate (plainEnv utcZone) \<lparr>path = js ''n.md'', basename = js ''n''\<rparr> (js ''Call '' @ calendarEmoji)
       = DateAt (20200 * msPerDay)
   \<and> apiDate (plainEnv utcZone) \<lparr>path = js ''n.md'', basename = js ''n''\<rparr> undatedApiTask
       = DateAt (20200 * msPerDay)"
proof -
  let ?line = "js ''- [ ] Buy milk '' @ calendarEmoji @ js '' 2025-03-14''"
  let ?f = "\<lparr>path = js ''n.md'', basename = js ''n''\<rparr>"
  have z: "setHours0 utcZone (DateAt (20161 * msPerDay)) = DateAt (20161 * msPerDay)"
    by (simp add: utc_eval)
  have o: "midnightInOrder utcZone (20161 * msPerDay)"
    by (simp add: midnightInOrder_def dayStart_def utc_eval)
  have e: "extractDateFromText utcZone isoNewDate (js ''Call '' @ calendarEmoji) = None"
    by (simp add: extractDateFromText_def datePatterns_def js_match_def isoDateAtoms_def
        dayFirstAtoms_def rx_eval)
  have n: "noNameDate (plainEnv utcZone) ?f"
    by (simp add: noNameDate_def plainEnv_def js_match_def legacyPattern_def rx_eval)
  have t: "setHours0 utcZone (setHours0 utcZone (DateAt (20200 * msPerDay + 5))) = DateAt (20200 * msPerDay)"
    by (simp add: utc_eval)
  have p: "timeZone (plainEnv utcZone) = utcZone" "newDateOf (plainEnv utcZone) = isoNewDate"
    "currentTime (plainEnv utcZone) = 20200 * msPerDay + 5"
    by (simp_all add: plainEnv_def)
  have u: "api_dueDate undatedApiTask = []" "api_startDate undatedApiTask = []"
    "api_scheduledDate undatedApiTask = []" "api_text undatedApiTask = js ''Call '' @ calendarEmoji"
    by (simp_all add: undatedApiTask_def)
  note th = stored_dates_at_midnight [of "plainEnv utcZone" bareHost "noteVault ?line" "[?f]"
      "js ''Call '' @ calendarEmoji" ?f undatedApiTask, unfolded p]
  from th e n have m: "manualDate (plainEnv utcZone) ?f (js ''Call '' @ calendarEmoji)
      = setHours0 utcZone (setHours0 utcZone (DateAt (20200 * msPerDay + 5)))" by blast
  let ?t = "\<lparr>task_text = js ''Buy milk '' @ calendarEmoji @ js '' 2025-03-14'',
         task_date = Some (DateAt (20161 * msPerDay)), task_file = ?f,
         task_line = 0, isCompleted = False\<rparr>"
  from th have b: "\<exists>ms. task_date u = Some (DateAt ms) \<and> getHours utcZone (DateAt ms) = Some 0 \<and>
            getMinutes utcZone (DateAt ms) = Some 0"
    if "u \<in> set (loadTasks (plainEnv utcZone) bareHost (noteVault ?line) [?f])"
      and "task_date u = Some (setHours0 utcZone (DateAt x))" and "midnightInOrder utcZone x" for u x
    using that by blast
  have i: "?t \<in> set (loadTasks (plainEnv utcZone) bareHost (noteVault ?line) [?f])"
    unfolding scan_dated_note [OF z] by simp
  have td: "task_date ?t = Some (setHours0 utcZone (DateAt (20161 * msPerDay)))"
    unfolding z by simp
  from b [OF i td o] obtain ms where "task_date ?t = Some (DateAt ms)"
    and h: "getHours utcZone (DateAt ms) = Some 0" "getMinutes utcZone (DateAt ms) = Some 0"
    by blast
  then have "ms = 20161 * msPerDay" by simp
  with h have g: "getHours utcZone (DateAt (20161 * msPerDay)) = Some 0 \<and>
      getMinutes utcZone (DateAt (20161 * msPerDay)) = Some 0" by blast
  from th e n u have a: "apiDate (plainEnv utcZone) ?f undatedApiTask
      = setHours0 utcZone (setHours0 utcZone (DateAt (20200 * msPerDay + 5)))" by simp
  from scan_dated_note [OF z] o g m a t show ?thesis by simp
qed

text \<open>
  The claim as stated fails in a zone that skips a midnight. In the zone whose clocks go
  from 00:00 to 01:00 at the start of 14 March 2025, the task dated on that day is stored
  with the date that \<^verbatim>\<open>setHours(0, 0, 0, 0)\<close> gives, and its hours are 1.
\<close>

theorem stored_date_at_one_o_clock:
  "loadTasks (plainEnv skipZone) bareHost
       (noteVault (js ''- [ ] Buy milk '' @ calendarEmoji @ js '' 2025-03-14''))
       [\<lparr>path = js ''n.md'', basename = js ''n''\<rparr>]
     = [\<lparr>task_text = js ''Buy milk '' @ calendarEmoji @ js '' 2025-03-14'',
         task_date = Some (DateAt (20161 * msPerDay)),
         task_file = \<lparr>path = js ''n.md'', basename = js ''n''\<rparr>,
         task_line = 0, isCompleted = False\<rparr>]
   \<and> getHours skipZone (DateAt (20161 * msPerDay)) = Some 1
   \<and> getMinutes skipZone (DateAt (20161 * msPerDay)) = Some 0"
proof -
  have z: "setHours0 skipZone (DateAt (20161 * msPerDay)) = DateAt (20161 * msPerDay)"
    by (simp add: skipZone_def LocalTime_def UTC_def Day_def TimeClip_def msPerDay_def)
  have g: "getHours skipZone (DateAt (20161 * msPerDay)) = Some 1"
    "getMinutes skipZone (DateAt (20161 * msPerDay)) = Some 0"
    by (simp_all add: skipZone_def LocalTime_def HourFromTime_def MinFromTime_def msPerDay_def)
  from scan_dated_note [OF z] g show ?thesis by simp
qed

end
